theory Spec2Isabelle
  imports Complex_Main "HOL-Library.Multiset"
begin

section \<open>JavaScript values, strings and arrays\<close>

text \<open>
  The server (\<^verbatim>\<open>server.js\<close>) keeps user records as two-element JavaScript arrays
  \<^verbatim>\<open>[id, color]\<close>. A record made by \<^verbatim>\<open>addUser\<close> carries a number as its identity; a
  record made from a \<^verbatim>\<open>pong\<close> message carries the strings the client sent, and may have any
  number of fields. A field that was never set reads as \<^verbatim>\<open>undefined\<close>.
  A string stands for its UTF-8 bytes. The only numbers that records hold are identities
  that \<^verbatim>\<open>generateUUID\<close> made: integers that count the records of a list, far below
  \<open>2^53\<close>, so \<open>Num n\<close> is the double with the integer value \<open>n\<close>, and its decimal text
  and \<^verbatim>\<open>parseInt\<close> of it are exact.
\<close>

datatype jsval = Num int | Str string | Undefined

text \<open>\<^verbatim>\<open>a[i]\<close>: reading past the end of an array gives \<^verbatim>\<open>undefined\<close>.\<close>

definition idx :: "jsval list \<Rightarrow> nat \<Rightarrow> jsval" where
  "idx a i = (if i < length a then a ! i else Undefined)"

text \<open>\<^verbatim>\<open>a[0] = v\<close> and \<^verbatim>\<open>a[1] = v\<close>: writing past the end extends the array.\<close>

fun set0 :: "jsval list \<Rightarrow> jsval \<Rightarrow> jsval list" where
  "set0 [] v = [v]"
| "set0 (a # r) v = v # r"

fun set1 :: "jsval list \<Rightarrow> jsval \<Rightarrow> jsval list" where
  "set1 [] v = [Undefined, v]"
| "set1 [a] v = [a, v]"
| "set1 (a # b # r) v = a # v # r"

text \<open>\<^verbatim>\<open>s.split(c)\<close> for a one-character separator: always at least one piece.\<close>

fun js_split :: "char \<Rightarrow> string \<Rightarrow> string list" where
  "js_split c [] = [[]]"
| "js_split c (x # xs) =
     (if x = c then [] # js_split c xs
      else (case js_split c xs of [] \<Rightarrow> [[x]] | w # ws \<Rightarrow> (x # w) # ws))"

text \<open>\<^verbatim>\<open>a.join(sep)\<close> on an array of strings.\<close>

fun js_join :: "string \<Rightarrow> string list \<Rightarrow> string" where
  "js_join sep [] = []"
| "js_join sep [x] = x"
| "js_join sep (x # y # r) = x @ sep @ js_join sep (y # r)"

text \<open>The decimal text of a number.\<close>

definition digit_char :: "nat \<Rightarrow> char" where
  "digit_char n = ''0123456789'' ! (n mod 10)"

function show_nat :: "nat \<Rightarrow> string" where
  "show_nat n = (if n < 10 then [digit_char n] else show_nat (n div 10) @ [digit_char n])"
  by pat_completeness auto
termination
  by (relation "measure id") auto

definition show_int :: "int \<Rightarrow> string" where
  "show_int i = (if i < 0 then CHR ''-'' # show_nat (nat (- i)) else show_nat (nat i))"

text \<open>
  How \<^verbatim>\<open>join\<close> renders one element of an array: \<^verbatim>\<open>undefined\<close> gives the empty
  string.
\<close>

fun joinItem :: "jsval \<Rightarrow> string" where
  "joinItem (Num n) = show_int n"
| "joinItem (Str s) = s"
| "joinItem Undefined = []"

subsection \<open>Numbers\<close>

text \<open>
  A number is a double: not-a-number, an infinity, or a finite value, which is a rational.
  (The two zeros are not told apart: \<^verbatim>\<open>===\<close> and the sign test of the sort do not tell
  them apart either.)
\<close>

datatype number = NaN | NegInfinity | Finite rat | PosInfinity

fun negate :: "number \<Rightarrow> number" where
  "negate NaN = NaN"
| "negate (Finite d) = Finite (- d)"
| "negate PosInfinity = NegInfinity"
| "negate NegInfinity = PosInfinity"

text \<open>
  The double nearest to a rational \<open>q \<ge> 0\<close>. An integer below \<open>2^53\<close> is a double. In
  general, with \<open>r\<close> the value in units of \<open>2^-1074\<close>, the least positive double, the
  doubles around \<open>r\<close> are the multiples of \<open>2^e\<close> units, where \<open>e\<close> is the number of bits
  of the integer part of \<open>r\<close> beyond 53 (none for the subnormal numbers and the first
  binade of the normal ones); \<open>r\<close> is rounded to the nearest of them, a tie to the even
  multiple; from \<open>2^1024\<close> on, which is \<open>2^2098\<close> units, the result is infinite.
\<close>

function bitlen :: "int \<Rightarrow> nat" where
  "bitlen n = (if n \<le> 0 then 0 else Suc (bitlen (n div 2)))"
  by pat_completeness auto
termination
  by (relation "measure nat") auto

definition roundHalfEven :: "rat \<Rightarrow> int" where
  "roundHalfEven q =
     (let m = \<lfloor>q\<rfloor>; f = q - of_int m
      in if 1 / 2 < f \<or> (f = 1 / 2 \<and> odd m) then m + 1 else m)"

definition roundDouble :: "rat \<Rightarrow> number" where
  "roundDouble q =
     (if of_int \<lfloor>q\<rfloor> = q \<and> q < 2 ^ 53 then Finite q
      else (let r = q * 2 ^ 1074;
                e = bitlen \<lfloor>r\<rfloor> - 53;
                m = roundHalfEven (r / 2 ^ e)
            in if 2 ^ 2098 \<le> m * 2 ^ e then PosInfinity
               else Finite (of_int (m * 2 ^ e) / 2 ^ 1074)))"

definition toDouble :: "rat \<Rightarrow> number" where
  "toDouble q = (if q < 0 then negate (roundDouble (- q)) else roundDouble q)"

text \<open>\<^verbatim>\<open>x - y\<close> on two numbers.\<close>

fun subtract :: "number \<Rightarrow> number \<Rightarrow> number" where
  "subtract (Finite a) (Finite b) = toDouble (a - b)"
| "subtract (Finite a) PosInfinity = NegInfinity"
| "subtract (Finite a) NegInfinity = PosInfinity"
| "subtract PosInfinity (Finite b) = PosInfinity"
| "subtract PosInfinity NegInfinity = PosInfinity"
| "subtract NegInfinity (Finite b) = NegInfinity"
| "subtract NegInfinity PosInfinity = NegInfinity"
| "subtract a b = NaN"

text \<open>\<^verbatim>\<open>x === v\<close> where \<open>x\<close> is a number and \<open>v\<close> any value.\<close>

fun strictEqNum :: "number \<Rightarrow> jsval \<Rightarrow> bool" where
  "strictEqNum (Finite n) (Num m) = (n = of_int m)"
| "strictEqNum x v = False"

text \<open>\<^verbatim>\<open>x === y\<close> on two numbers: not-a-number equals nothing.\<close>

fun numEq :: "number \<Rightarrow> number \<Rightarrow> bool" where
  "numEq (Finite n) (Finite m) = (n = m)"
| "numEq PosInfinity PosInfinity = True"
| "numEq NegInfinity NegInfinity = True"
| "numEq x y = False"

text \<open>
  The order of the numbers: \<open>-\<infinity>\<close>, the finite values in their order, \<open>+\<infinity>\<close>.
  Not-a-number, which JavaScript compares with nothing, is put below them all so that the
  order is linear; the properties below use the order only on numbers that are not
  not-a-number.
\<close>

instantiation number :: linorder
begin

fun less_eq_number :: "number \<Rightarrow> number \<Rightarrow> bool" where
  "less_eq_number NaN y = True"
| "less_eq_number NegInfinity y = (y \<noteq> NaN)"
| "less_eq_number (Finite a) y = (case y of Finite b \<Rightarrow> a \<le> b | PosInfinity \<Rightarrow> True | _ \<Rightarrow> False)"
| "less_eq_number PosInfinity y = (y = PosInfinity)"

definition less_number :: "number \<Rightarrow> number \<Rightarrow> bool" where
  "less_number x y = (x \<le> y \<and> x \<noteq> y)"

instance
proof
  fix x y z :: number
  show "(x < y) = (x \<le> y \<and> \<not> y \<le> x)"
    by (cases x; cases y) (auto simp: less_number_def)
  show "x \<le> x"
    by (cases x) auto
  show "x \<le> y \<Longrightarrow> y \<le> z \<Longrightarrow> x \<le> z"
    by (cases x; cases y; cases z) auto
  show "x \<le> y \<Longrightarrow> y \<le> x \<Longrightarrow> x = y"
    by (cases x; cases y) auto
  show "x \<le> y \<or> y \<le> x"
    by (cases x; cases y) auto
qed

end

subsection \<open>White space and digits\<close>

text \<open>
  The white space and line terminator characters of ECMAScript, each as its UTF-8 bytes:
  U+0009 to U+000D, U+0020, U+00A0, U+1680, U+2000 to U+200A, U+2028, U+2029, U+202F,
  U+205F, U+3000 and U+FEFF. \<open>trimStart\<close> drops them from the front of a string and
  \<open>trimEnd\<close> from its end.
\<close>

definition codes :: "string \<Rightarrow> nat list" where
  "codes s = map of_char s"

definition whiteSpaceCodes :: "nat list list" where
  "whiteSpaceCodes =
     [[9], [10], [11], [12], [13], [32], [194, 160], [225, 154, 128]]
     @ map (\<lambda>b. [226, 128, b]) [128..<139]
     @ [[226, 128, 168], [226, 128, 169], [226, 128, 175], [226, 129, 159],
        [227, 128, 128], [239, 187, 191]]"

definition matchLength :: "nat list list \<Rightarrow> nat list \<Rightarrow> nat" where
  "matchLength ws cs =
     (case List.find (\<lambda>w. take (length w) cs = w) ws of Some w \<Rightarrow> length w | None \<Rightarrow> 0)"

function dropAll :: "nat list list \<Rightarrow> nat list \<Rightarrow> nat list" where
  "dropAll ws cs =
     (if matchLength ws cs = 0 then cs else dropAll ws (drop (matchLength ws cs) cs))"
  by pat_completeness auto
termination
proof (relation "measure (\<lambda>(ws, cs). length cs)")
  show "wf (measure (\<lambda>(ws, cs). length cs))" by simp
next
  fix ws :: "nat list list" and cs :: "nat list"
  assume m: "matchLength ws cs \<noteq> 0"
  then obtain w where "take (length w) cs = w" "length w \<noteq> 0"
    by (auto simp: matchLength_def find_Some_iff split: option.splits)
  then have "cs \<noteq> []" by auto
  then show "((ws, drop (matchLength ws cs) cs), (ws, cs)) \<in> measure (\<lambda>(ws, cs). length cs)"
    using m by simp
qed

definition trimStart :: "nat list \<Rightarrow> nat list" where
  "trimStart cs = dropAll whiteSpaceCodes cs"

definition trimEnd :: "nat list \<Rightarrow> nat list" where
  "trimEnd cs = rev (dropAll (map rev whiteSpaceCodes) (rev cs))"

text \<open>
  The value of a digit or letter as a digit, the test for a digit of radix \<open>R\<close>, and the
  value of a run of digits.
\<close>

definition digitVal :: "nat \<Rightarrow> nat option" where
  "digitVal c =
     (if 48 \<le> c \<and> c \<le> 57 then Some (c - 48)
      else if 97 \<le> c \<and> c \<le> 122 then Some (c - 87)
      else if 65 \<le> c \<and> c \<le> 90 then Some (c - 55)
      else None)"

definition isDigit :: "nat \<Rightarrow> nat \<Rightarrow> bool" where
  "isDigit R c = (case digitVal c of Some d \<Rightarrow> d < R | None \<Rightarrow> False)"

definition digitsValue :: "nat \<Rightarrow> nat list \<Rightarrow> int" where
  "digitsValue R ds =
     foldl (\<lambda>a c. a * int R + (case digitVal c of Some d \<Rightarrow> int d | None \<Rightarrow> 0)) 0 ds"

text \<open>
  A leading \<^verbatim>\<open>0\<close> followed by one of the given letters; a leading sign; a leading
  \<^verbatim>\<open>-\<close>.
\<close>

definition hasPrefix :: "nat list \<Rightarrow> string \<Rightarrow> bool" where
  "hasPrefix cs letters = (2 \<le> length cs \<and> cs ! 0 = 48 \<and> cs ! 1 \<in> set (codes letters))"

definition isSign :: "nat list \<Rightarrow> bool" where
  "isSign cs = (cs \<noteq> [] \<and> (hd cs = 43 \<or> hd cs = 45))"

definition isMinus :: "nat list \<Rightarrow> bool" where
  "isMinus cs = (cs \<noteq> [] \<and> hd cs = 45)"

subsection \<open>\<^verbatim>\<open>parseInt\<close>\<close>

text \<open>
  \<^verbatim>\<open>parseInt(s)\<close> with no radix: leading white space is skipped, a sign is read, a
  \<^verbatim>\<open>0x\<close> prefix selects radix 16, and the longest prefix of digits is read; with no digit
  the result is not-a-number, otherwise it is the double nearest to the integer read.
  (ECMAScript lets an implementation replace the decimal digits after the twentieth
  significant one by zeros; the model, like V8, reads them all.)
\<close>

definition parseInt_str :: "string \<Rightarrow> number" where
  "parseInt_str s =
     (let s1 = trimStart (codes s);
          s2 = (if isSign s1 then tl s1 else s1);
          hex = hasPrefix s2 ''xX'';
          R = (if hex then 16 else 10);
          s3 = (if hex then drop 2 s2 else s2);
          ds = takeWhile (isDigit R) s3
      in if ds = [] then NaN
         else if isMinus s1 then negate (roundDouble (of_int (digitsValue R ds)))
         else roundDouble (of_int (digitsValue R ds)))"

text \<open>\<^verbatim>\<open>parseInt(v)\<close> first turns \<open>v\<close> into a string.\<close>

fun parseInt :: "jsval \<Rightarrow> number" where
  "parseInt (Num n) = Finite (of_int n)"
| "parseInt (Str s) = parseInt_str s"
| "parseInt Undefined = NaN"

subsection \<open>The conversion of a string to a number\<close>

text \<open>
  The subtraction in \<^verbatim>\<open>userSortFunc\<close> converts its operands to numbers. A string is a
  number when, with the white space at both ends removed, it is empty (the value 0), or
  digits after \<^verbatim>\<open>0x\<close>, \<^verbatim>\<open>0o\<close> or \<^verbatim>\<open>0b\<close>, or an optional sign before \<^verbatim>\<open>Infinity\<close> or
  before a decimal literal: digits with an optional point in or around them, then an
  optional exponent. The value is the double nearest to the number written. Every other
  string is not-a-number.
\<close>

definition integerLiteral :: "nat \<Rightarrow> nat list \<Rightarrow> number" where
  "integerLiteral R ds =
     (if ds \<noteq> [] \<and> list_all (isDigit R) ds then roundDouble (of_int (digitsValue R ds))
      else NaN)"

text \<open>The exponent that the rest of a decimal literal, after its digits, denotes.\<close>

definition exponentPart :: "nat list \<Rightarrow> int option" where
  "exponentPart cs =
     (if cs = [] then Some 0
      else if hd cs = 101 \<or> hd cs = 69 then
        (let x = tl cs; ds = (if isSign x then tl x else x)
         in if ds \<noteq> [] \<and> list_all (isDigit 10) ds
            then Some (if isMinus x then - digitsValue 10 ds else digitsValue 10 ds)
            else None)
      else None)"

definition scale10 :: "int \<Rightarrow> int \<Rightarrow> rat" where
  "scale10 n k =
     (if 0 \<le> k then of_int (n * 10 ^ nat k) else of_int n / of_int (10 ^ nat (- k)))"

definition decimalLiteral :: "nat list \<Rightarrow> number" where
  "decimalLiteral cs =
     (let ip = takeWhile (isDigit 10) cs;
          r1 = dropWhile (isDigit 10) cs;
          dot = (r1 \<noteq> [] \<and> hd r1 = 46);
          fp = (if dot then takeWhile (isDigit 10) (tl r1) else []);
          r2 = (if dot then dropWhile (isDigit 10) (tl r1) else r1)
      in if ip = [] \<and> fp = [] then NaN
         else (case exponentPart r2 of
                 None \<Rightarrow> NaN
               | Some k \<Rightarrow>
                   roundDouble (scale10 (digitsValue 10 (ip @ fp)) (k - int (length fp)))))"

definition toNumber_str :: "string \<Rightarrow> number" where
  "toNumber_str s =
     (let t = trimEnd (trimStart (codes s));
          u = (if isSign t then tl t else t)
      in if t = [] then Finite 0
         else if hasPrefix t ''xX'' then integerLiteral 16 (drop 2 t)
         else if hasPrefix t ''oO'' then integerLiteral 8 (drop 2 t)
         else if hasPrefix t ''bB'' then integerLiteral 2 (drop 2 t)
         else if u = codes ''Infinity'' then (if isMinus t then NegInfinity else PosInfinity)
         else if isMinus t then negate (decimalLiteral u)
         else decimalLiteral u)"

fun toNumber :: "jsval \<Rightarrow> number" where
  "toNumber (Num n) = Finite (of_int n)"
| "toNumber (Str s) = toNumber_str s"
| "toNumber Undefined = NaN"

subsection \<open>The comparator\<close>

text \<open>\<^verbatim>\<open>const userSortFunc = (a,b) => a[0]-b[0]\<close>\<close>

definition userSortFunc :: "jsval list \<Rightarrow> jsval list \<Rightarrow> number" where
  "userSortFunc a b = subtract (toNumber (idx a 0)) (toNumber (idx b 0))"

text \<open>
  The records whose identity converts to a number that is not not-a-number, and the
  number that the identity of a record converts to.
\<close>

definition numericId :: "jsval list \<Rightarrow> number" where
  "numericId u = toNumber (idx u 0)"

definition hasNumericId :: "jsval list \<Rightarrow> bool" where
  "hasNumericId u = (numericId u \<noteq> NaN)"

subsection \<open>Sorting with a comparator\<close>

text \<open>
  \<^verbatim>\<open>Array.prototype.sort\<close> is stable. ECMAScript determines its result when the
  comparator is consistent on the elements: the result is that of a stable insertion
  sort, in which \<open>x\<close> goes after \<open>y\<close> when the comparator gives a number above 0 for them
  (not-a-number counts as 0). Where the comparator is not consistent the order is left to
  the implementation, but the result is a permutation of the array: \<open>permute p xs\<close> is
  the list \<open>xs\<close> put in the order that the list of positions \<open>p\<close> gives (and \<open>xs\<close> itself
  if \<open>p\<close> is not a list of all positions).
\<close>

fun positive :: "number \<Rightarrow> bool" where
  "positive (Finite d) = (0 < d)"
| "positive PosInfinity = True"
| "positive x = False"

definition after :: "('a \<Rightarrow> 'a \<Rightarrow> number) \<Rightarrow> 'a \<Rightarrow> 'a \<Rightarrow> bool" where
  "after cmp x y = positive (cmp x y)"

fun insertBy :: "('a \<Rightarrow> 'a \<Rightarrow> number) \<Rightarrow> 'a \<Rightarrow> 'a list \<Rightarrow> 'a list" where
  "insertBy cmp x [] = [x]"
| "insertBy cmp x (y # ys) = (if after cmp x y then y # insertBy cmp x ys else x # y # ys)"

definition stableSort :: "('a \<Rightarrow> 'a \<Rightarrow> number) \<Rightarrow> 'a list \<Rightarrow> 'a list" where
  "stableSort cmp xs = foldr (insertBy cmp) xs []"

definition permute :: "nat list \<Rightarrow> 'a list \<Rightarrow> 'a list" where
  "permute p xs = (if sort p = [0..<length xs] then map (nth xs) p else xs)"

section \<open>The server's state\<close>

text \<open>
  \<^verbatim>\<open>userList\<close> and \<^verbatim>\<open>tempUserList\<close> are variables that hold references to arrays, and the
  arrays hold references to user records. Two variables can name one array (after
  \<^verbatim>\<open>userList = tempUserList.sort(...)\<close>, which sorts in place and returns the same array),
  and one record can sit in both arrays (\<^verbatim>\<open>addUser\<close> pushes the same object twice). So the
  state has two stores: \<open>objects\<close> maps a record's address to its fields, \<open>arrays\<close> maps
  an array's address to the record addresses it holds. An address that was never allocated
  holds the empty list and is never read.

  \<open>sortEngine\<close> is not a variable of the program. It stands for the JavaScript engine
  where ECMAScript leaves the order of a sorted array open: for the records of an array
  it gives the order, as a list of positions, in which the engine would leave them. No
  handler changes it, and what is proved of all states is proved of all engines.
\<close>

record server =
  sortEngine :: "jsval list list \<Rightarrow> nat list"
  objects :: "nat \<Rightarrow> jsval list"
  nextObject :: nat
  arrays :: "nat \<Rightarrow> nat list"
  nextArray :: nat
  userList :: nat
  tempUserList :: nat
  canvasState :: "string list"
  userListStale :: bool

text \<open>
  The state when the process starts, on a given engine: \<^verbatim>\<open>let userList = [];
  let tempUserList = []; let canvasState = []; let userListStale = false;\<close>
\<close>

definition init :: "(jsval list list \<Rightarrow> nat list) \<Rightarrow> server" where
  "init engine =
     \<lparr> sortEngine = engine, objects = (\<lambda>_. []), nextObject = 0, arrays = (\<lambda>_. []),
       nextArray = 2, userList = 0, tempUserList = 1, canvasState = [],
       userListStale = False \<rparr>"

text \<open>The records an array holds, in order; the two views of the registry.\<close>

definition users :: "server \<Rightarrow> nat \<Rightarrow> jsval list list" where
  "users s a = map (objects s) (arrays s a)"

definition authoritative :: "server \<Rightarrow> jsval list list" where
  "authoritative s = users s (userList s)"

definition provisional :: "server \<Rightarrow> jsval list list" where
  "provisional s = users s (tempUserList s)"

text \<open>
  A new record object, \<^verbatim>\<open>a.push(r)\<close>, and \<^verbatim>\<open>a.sort(userSortFunc)\<close> in place. On records
  whose identities all convert to numbers the comparator is consistent (it orders them by
  these numbers) and the sort is the stable sort. With an identity that is not-a-number
  the comparator gives 0 for this record and every other, so it is not consistent as soon
  as two others differ, and the result is the permutation that the engine gives; for an
  array of fewer than two records that is the array itself.
\<close>

definition alloc :: "server \<Rightarrow> jsval list \<Rightarrow> nat \<times> server" where
  "alloc s v =
     (nextObject s,
      s\<lparr>objects := (objects s)(nextObject s := v), nextObject := Suc (nextObject s)\<rparr>)"

definition push :: "server \<Rightarrow> nat \<Rightarrow> nat \<Rightarrow> server" where
  "push s a r = s\<lparr>arrays := (arrays s)(a := arrays s a @ [r])\<rparr>"

definition sortRefs :: "server \<Rightarrow> nat list \<Rightarrow> nat list" where
  "sortRefs s rs =
     (if list_all (\<lambda>r. hasNumericId (objects s r)) rs
      then stableSort (\<lambda>p q. userSortFunc (objects s p) (objects s q)) rs
      else permute (sortEngine s (map (objects s) rs)) rs)"

definition sortArray :: "server \<Rightarrow> nat \<Rightarrow> server" where
  "sortArray s a = s\<lparr>arrays := (arrays s)(a := sortRefs s (arrays s a))\<rparr>"

text \<open>\<^verbatim>\<open>r[1] = v\<close> on the record at address \<open>r\<close>.\<close>

definition setField1 :: "server \<Rightarrow> nat \<Rightarrow> jsval \<Rightarrow> server" where
  "setField1 s r v = s\<lparr>objects := (objects s)(r := set1 (objects s r) v)\<rparr>"

text \<open>\<^verbatim>\<open>userList.join(';')\<close>: each record is itself joined with commas.\<close>

definition joinUsers :: "jsval list list \<Rightarrow> string" where
  "joinUsers us = js_join '';'' (map (\<lambda>u. js_join '','' (map joinItem u)) us)"

subsection \<open>Messages\<close>

text \<open>
  An inbound message after \<^verbatim>\<open>JSON.parse\<close>: its \<^verbatim>\<open>messageType\<close> and its \<^verbatim>\<open>data\<close>, which
  is \<open>None\<close> when the field is missing or is not a string (the handlers call
  \<^verbatim>\<open>message.data.split\<close>, which then throws). A \<^verbatim>\<open>messageType\<close> that is not a string
  matches no case of the \<^verbatim>\<open>switch\<close>, as a string that names no case does. Input that
  \<^verbatim>\<open>JSON.parse\<close> refuses never becomes a message and is not modelled.
\<close>

record message =
  messageType :: string
  data :: "string option"

text \<open>
  An outbound message \<^verbatim>\<open>{messageType, data}\<close> (the \<open>data\<close> field may be absent), or the
  error report \<^verbatim>\<open>{messageType: 'error', data, originalMessage}\<close>. A connection (the \<^verbatim>\<open>ws\<close>
  of a handler) is named by a number. A handler either sends to the connection it serves,
  \<^verbatim>\<open>ws.send\<close>, or to every connection open at that moment, \<^verbatim>\<open>broadcast\<close>; the set
  \<^verbatim>\<open>wsServer.clients\<close> is kept by the library and is not part of the state.
\<close>

datatype outmsg = Msg string "jsval option" | ErrorMsg string message

type_synonym connection = nat

datatype action = Send connection outmsg | Broadcast outmsg

datatype error = TypeError

text \<open>
  \<^verbatim>\<open>broadcast(type, data)\<close>: the \<open>data\<close> field is left out when \<open>data\<close> is falsy, which
  for a string means empty.
\<close>

definition broadcast :: "string \<Rightarrow> string \<Rightarrow> action" where
  "broadcast t d = Broadcast (Msg t (if d = [] then None else Some (Str d)))"

section \<open>The identity registry\<close>

text \<open>
  \<^verbatim>\<open>generateUUID\<close>: count up from 1 until no record of \<^verbatim>\<open>userList\<close> has that identity.
  \<open>found\<close> is the inner \<^verbatim>\<open>for\<close> loop; the outer \<^verbatim>\<open>while\<close> loop ends because each
  round that goes on passes one more identity of the list. (The counter is a double, and
  counts exactly below \<open>2^53\<close>; it stays below the length of the list plus two, and an
  array has fewer than \<open>2^32\<close> elements.)
\<close>

definition found :: "jsval list list \<Rightarrow> int \<Rightarrow> bool" where
  "found us uuid = list_ex (\<lambda>user. numEq (parseInt (idx user 0)) (Finite (of_int uuid))) us"

function generateUUID_loop :: "jsval list list \<Rightarrow> int \<Rightarrow> int" where
  "generateUUID_loop us uuid =
     (if found us (uuid + 1) then generateUUID_loop us (uuid + 1) else uuid + 1)"
  by pat_completeness auto

termination
proof (relation "measure (\<lambda>(us, uuid). length (filter (\<lambda>u. case parseInt (idx u 0) of
          Finite k \<Rightarrow> of_int uuid < k | _ \<Rightarrow> False) us))")
  show "wf (measure (\<lambda>(us, uuid). length (filter (\<lambda>u. case parseInt (idx u 0) of
          Finite k \<Rightarrow> of_int uuid < k | _ \<Rightarrow> False) us)))"
    by simp
next
  fix us :: "jsval list list" and uuid :: int
  assume "found us (uuid + 1)"
  then obtain u where u: "u \<in> set us" "parseInt (idx u 0) = Finite (of_int (uuid + 1))"
    unfolding found_def list_ex_iff by (auto elim: numEq.elims)
  let ?P = "\<lambda>u. case parseInt (idx u 0) of Finite k \<Rightarrow> of_int (uuid + 1) < k | _ \<Rightarrow> False"
  let ?Q = "\<lambda>u. case parseInt (idx u 0) of Finite k \<Rightarrow> of_int uuid < k | _ \<Rightarrow> False"
  have sub: "?P x \<Longrightarrow> ?Q x" for x
    by (auto split: number.splits)
  have le: "length (filter ?P xs) \<le> length (filter ?Q xs)" for xs
    using sub by (induction xs) auto
  have less: "u \<in> set xs \<Longrightarrow> length (filter ?P xs) < length (filter ?Q xs)" for xs
  proof (induction xs)
    case Nil
    then show ?case by simp
  next
    case (Cons a xs)
    show ?case
    proof (cases "a = u")
      case True
      then show ?thesis using u(2) le [of xs] by simp
    next
      case False
      then have "length (filter ?P xs) < length (filter ?Q xs)"
        using Cons by simp
      then show ?thesis using sub [of a] by auto
    qed
  qed
  show "((us, uuid + 1), (us, uuid)) \<in> measure (\<lambda>(us, uuid). length (filter (\<lambda>u.
          case parseInt (idx u 0) of Finite k \<Rightarrow> of_int uuid < k | _ \<Rightarrow> False) us))"
    using less [OF u(1)] by simp
qed

definition generateUUID :: "server \<Rightarrow> int" where
  "generateUUID s = generateUUID_loop (authoritative s) 0"

text \<open>
  \<^verbatim>\<open>addUser\<close>: one new record object \<^verbatim>\<open>[newUUID, "black"]\<close> is pushed onto \<^verbatim>\<open>userList\<close> and
  onto \<^verbatim>\<open>tempUserList\<close>, then \<^verbatim>\<open>userList\<close> is sorted in place. The three array operations
  happen in this order, each on the array its variable names at that moment.
\<close>

definition addUser :: "server \<Rightarrow> int \<times> server" where
  "addUser s =
     (let newUUID = generateUUID s;
          (newUser, s1) = alloc s [Num newUUID, Str ''black''];
          s2 = push s1 (userList s1) newUser;
          s3 = push s2 (tempUserList s2) newUser;
          s4 = sortArray s3 (userList s3)
      in (newUUID, s4))"

section \<open>The liveness sweep\<close>

text \<open>
  \<^verbatim>\<open>sendKeepAlive\<close>: raise the flag, broadcast the probe, and point \<^verbatim>\<open>tempUserList\<close> at a
  new empty array. The function also starts the timer whose callback is
  \<open>sendKeepAlive_timeout\<close> below.
\<close>

definition sendKeepAlive :: "server \<Rightarrow> server \<times> action list" where
  "sendKeepAlive s =
     (s\<lparr>userListStale := True,
        arrays := (arrays s)(nextArray s := []),
        tempUserList := nextArray s,
        nextArray := Suc (nextArray s)\<rparr>,
      [broadcast ''ping'' []])"

text \<open>
  The callback of \<^verbatim>\<open>setTimeout\<close> in \<^verbatim>\<open>sendKeepAlive\<close>: \<^verbatim>\<open>tempUserList\<close> is sorted in place,
  \<^verbatim>\<open>userList\<close> is set to that same array, the list is broadcast and the flag is lowered.
  \<^verbatim>\<open>tempUserList\<close> is not assigned here.
\<close>

definition sendKeepAlive_timeout :: "server \<Rightarrow> server \<times> action list" where
  "sendKeepAlive_timeout s =
     (let s1 = sortArray s (tempUserList s);
          s2 = s1\<lparr>userList := tempUserList s1\<rparr>
      in (s2\<lparr>userListStale := False\<rparr>,
          [broadcast ''announceConnectedUsers'' (joinUsers (authoritative s2))]))"

section \<open>The connection handlers\<close>

text \<open>\<^verbatim>\<open>wsServer.on('connection', ...)\<close>: register a user and tell the client its identity.\<close>

definition onConnection :: "server \<Rightarrow> connection \<Rightarrow> server \<times> action list" where
  "onConnection s ws =
     (let (newUUID, s1) = addUser s
      in (s1, [Send ws (Msg ''announceUUID'' (Some (Num newUUID)))]))"

text \<open>
  Each case of the \<^verbatim>\<open>switch\<close> returns the new state, what it sent, and \<^verbatim>\<open>validMessage\<close>;
  \<open>Inl TypeError\<close> is an exception thrown out of the handler, which nothing catches.

  \<^verbatim>\<open>case 'userAccepted'\<close>: the record is looked up in \<^verbatim>\<open>userList\<close> with
  \<^verbatim>\<open>parseInt(receivedData[0]) === user[0]\<close>, so only a record whose identity is a number can
  match.
\<close>

definition userAccepted ::
  "server \<Rightarrow> connection \<Rightarrow> string \<Rightarrow> server \<times> action list \<times> bool" where
  "userAccepted s ws d =
     (let receivedData = map Str (js_split CHR '','' d) in
      case List.find (\<lambda>r. strictEqNum (parseInt (idx receivedData 0)) (idx (objects s r) 0))
             (arrays s (userList s)) of
        None \<Rightarrow> (s, [], False)
      | Some userRef \<Rightarrow>
          (let s1 = setField1 s userRef (idx receivedData 1)
           in (s1,
               (if \<not> userListStale s1
                then [broadcast ''announceConnectedUsers'' (joinUsers (authoritative s1))] else [])
               @ (if canvasState s1 \<noteq> []
                  then [Send ws (Msg ''paint'' (Some (Str (js_join '';'' (canvasState s1)))))]
                  else []),
               True)))"

text \<open>
  \<^verbatim>\<open>case 'pong'\<close>: the fields the client sent become a new record object, pushed onto
  \<^verbatim>\<open>tempUserList\<close>. With the sentinel \<open>-1\<close> as identity, \<^verbatim>\<open>addUser\<close> runs first and its
  result replaces field 0. (The array that \<^verbatim>\<open>split\<close> made is reachable from no list until
  it is pushed, so the model gives it an address when its fields are final.)
\<close>

definition pong ::
  "server \<Rightarrow> connection \<Rightarrow> string \<Rightarrow> server \<times> action list \<times> bool" where
  "pong s ws d =
     (let user = map Str (js_split CHR '','' d);
          (user1, s1, out) =
            (if numEq (parseInt (idx user 0)) (Finite (- 1))
             then (let (newUUID, s') = addUser s
                   in (set0 user (Num newUUID), s',
                       [Send ws (Msg ''announceUUID'' (Some (Num newUUID)))]))
             else (user, s, []));
          (r, s2) = alloc s1 user1
      in (push s2 (tempUserList s2) r, out, True))"

text \<open>
  \<^verbatim>\<open>case 'paint'\<close>: the loop pushes each entry with three fields onto \<^verbatim>\<open>canvasState\<close> and
  stops at the first entry that has not; the batch is broadcast if the loop did not stop.
\<close>

fun paint_loop :: "string list \<Rightarrow> string list \<Rightarrow> string list \<times> bool" where
  "paint_loop cs [] = (cs, True)"
| "paint_loop cs (e # es) =
     (if length (js_split CHR '','' e) = 3 then paint_loop (cs @ [e]) es else (cs, False))"

definition paint :: "server \<Rightarrow> string \<Rightarrow> server \<times> action list \<times> bool" where
  "paint s d =
     (let (cs, validMessage) = paint_loop (canvasState s) (js_split CHR '';'' d)
      in (s\<lparr>canvasState := cs\<rparr>, (if validMessage then [broadcast ''paint'' d] else []),
          validMessage))"

text \<open>
  \<^verbatim>\<open>case 'updateColor'\<close>: with two fields, the record is looked up with
  \<^verbatim>\<open>parseInt(data[0]) === parseInt(u[0])\<close> in \<^verbatim>\<open>tempUserList\<close> while the flag is up and in
  \<^verbatim>\<open>userList\<close> otherwise, and field 1 of the result of \<^verbatim>\<open>find\<close> is assigned. When
  \<^verbatim>\<open>find\<close> gives \<^verbatim>\<open>undefined\<close> the assignment throws.
\<close>

definition updateColor :: "server \<Rightarrow> string \<Rightarrow> error + server \<times> action list \<times> bool" where
  "updateColor s d =
     (let data = map Str (js_split CHR '','' d) in
      if length data = 2 then
        (let a = (if userListStale s then tempUserList s else userList s) in
         case List.find (\<lambda>u. numEq (parseInt (idx data 0)) (parseInt (idx (objects s u) 0)))
                (arrays s a) of
           None \<Rightarrow> Inl TypeError
         | Some u \<Rightarrow>
             (let s1 = setField1 s u (idx data 1)
              in Inr (s1,
                      (if userListStale s then []
                       else [broadcast ''announceConnectedUsers'' (joinUsers (authoritative s1))]),
                      True)))
      else Inr (s, [], False))"

text \<open>
  \<^verbatim>\<open>ws.on('message', ...)\<close>: the \<^verbatim>\<open>switch\<close> has the four cases above and no default; the
  error report is sent after it when \<^verbatim>\<open>validMessage\<close> is false.
\<close>

definition dispatch ::
  "server \<Rightarrow> connection \<Rightarrow> message \<Rightarrow> error + server \<times> action list \<times> bool" where
  "dispatch s ws m =
     (if messageType m = ''userAccepted'' then
        (case data m of None \<Rightarrow> Inl TypeError | Some d \<Rightarrow> Inr (userAccepted s ws d))
      else if messageType m = ''pong'' then
        (case data m of None \<Rightarrow> Inl TypeError | Some d \<Rightarrow> Inr (pong s ws d))
      else if messageType m = ''paint'' then
        (case data m of None \<Rightarrow> Inl TypeError | Some d \<Rightarrow> Inr (paint s d))
      else if messageType m = ''updateColor'' then
        (case data m of None \<Rightarrow> Inl TypeError | Some d \<Rightarrow> updateColor s d)
      else Inr (s, [], True))"

definition onMessage ::
  "server \<Rightarrow> connection \<Rightarrow> message \<Rightarrow> error + server \<times> action list" where
  "onMessage s ws m =
     (case dispatch s ws m of
        Inl e \<Rightarrow> Inl e
      | Inr (s1, out, validMessage) \<Rightarrow>
          Inr (s1, out @ (if validMessage then []
                 else [Send ws (ErrorMsg ''Client sent an unrecognized message format'' m)])))"

text \<open>\<^verbatim>\<open>ws.on('close', ...)\<close> calls \<^verbatim>\<open>sendKeepAlive\<close>.\<close>

definition onClose :: "server \<Rightarrow> server \<times> action list" where
  "onClose s = sendKeepAlive s"

section \<open>Runs of the server\<close>

text \<open>
  What the event loop can deliver: a new connection, a message on a connection, a closed
  connection (each with the connection it concerns), the interval timer (\<^verbatim>\<open>setInterval(sendKeepAlive, pingIntervalMS)\<close>), and the
  timeout that \<^verbatim>\<open>sendKeepAlive\<close> set. A run stops at the first exception. Any sequence
  of events is a run: that a timeout only comes after the \<^verbatim>\<open>sendKeepAlive\<close> that set it is
  not enforced, so what holds of all runs holds of the runs the timers allow.
\<close>

datatype event =
  Connection connection | Message connection message | Close connection | Interval | Timeout

fun step :: "server \<Rightarrow> event \<Rightarrow> error + server \<times> action list" where
  "step s (Connection ws) = Inr (onConnection s ws)"
| "step s (Message ws m) = onMessage s ws m"
| "step s (Close ws) = Inr (onClose s)"
| "step s Interval = Inr (sendKeepAlive s)"
| "step s Timeout = Inr (sendKeepAlive_timeout s)"

fun run :: "server \<Rightarrow> event list \<Rightarrow> error + server \<times> action list" where
  "run s [] = Inr (s, [])"
| "run s (e # es) =
     (case step s e of
        Inl err \<Rightarrow> Inl err
      | Inr (s1, out1) \<Rightarrow>
          (case run s1 es of
             Inl err \<Rightarrow> Inl err
           | Inr (s2, out2) \<Rightarrow> Inr (s2, out1 @ out2)))"

text \<open>What can be seen of a state: the two lists, the log and the flag.\<close>

definition view :: "server \<Rightarrow> jsval list list \<times> jsval list list \<times> string list \<times> bool" where
  "view s = (authoritative s, provisional s, canvasState s, userListStale s)"

definition observe ::
  "error + server \<times> action list \<Rightarrow>
   error + (jsval list list \<times> jsval list list \<times> string list \<times> bool) \<times> action list" where
  "observe r = (case r of Inl e \<Rightarrow> Inl e | Inr (s, out) \<Rightarrow> Inr (view s, out))"

section \<open>Vocabulary of the properties\<close>

text \<open>The identity of a record is its field 0, \<^verbatim>\<open>user[0]\<close>.\<close>

definition ident :: "jsval list \<Rightarrow> jsval" where
  "ident u = idx u 0"

text \<open>
  One sweep cycle is a call of \<^verbatim>\<open>sendKeepAlive\<close>, the events that the server handles during
  the grace period, and the timeout. The events during the grace period are new connections
  and messages: a closed connection or the interval timer would call \<^verbatim>\<open>sendKeepAlive\<close>
  again and so start another cycle.
\<close>

fun inSweep :: "event \<Rightarrow> bool" where
  "inSweep (Connection ws) = True"
| "inSweep (Message ws m) = True"
| "inSweep _ = False"

text \<open>
  The identity a liveness reply carries, unless it is the sentinel; and the identity that an
  outbound \<^verbatim>\<open>announceUUID\<close> message carries.
\<close>

fun repliedId :: "event \<Rightarrow> jsval list" where
  "repliedId (Message ws m) =
     (case data m of
        None \<Rightarrow> []
      | Some d \<Rightarrow>
          (let user = map Str (js_split CHR '','' d) in
           if messageType m = ''pong'' \<and> \<not> numEq (parseInt (idx user 0)) (Finite (- 1))
           then [idx user 0] else []))"
| "repliedId _ = []"

definition repliedIds :: "event list \<Rightarrow> jsval list" where
  "repliedIds es = concat (map repliedId es)"

fun announcedId :: "action \<Rightarrow> jsval list" where
  "announcedId (Send ws (Msg t (Some v))) = (if t = ''announceUUID'' then [v] else [])"
| "announcedId _ = []"

definition announcedIds :: "action list \<Rightarrow> jsval list" where
  "announcedIds out = concat (map announcedId out)"

text \<open>
  The events that make the server allocate an identity: a new connection, and a liveness
  reply whose identity parses as the sentinel \<open>-1\<close>.
\<close>

fun allocates :: "event \<Rightarrow> bool" where
  "allocates (Connection ws) = True"
| "allocates (Message ws m) =
     (case data m of
        None \<Rightarrow> False
      | Some d \<Rightarrow> messageType m = ''pong'' \<and>
          numEq (parseInt (idx (map Str (js_split CHR '','' d)) 0)) (Finite (- 1)))"
| "allocates _ = False"

text \<open>A paint entry as \<^verbatim>\<open>case 'paint'\<close> tests it: three comma-separated fields.\<close>

definition threeFields :: "string \<Rightarrow> bool" where
  "threeFields e = (length (js_split CHR '','' e) = 3)"

text \<open>The events that start a sweep: both call \<^verbatim>\<open>sendKeepAlive\<close>.\<close>

fun startsSweep :: "event \<Rightarrow> bool" where
  "startsSweep Interval = True"
| "startsSweep (Close ws) = True"
| "startsSweep _ = False"

text \<open>
  The record addresses in the array that \<^verbatim>\<open>tempUserList\<close> names, and how a handler may
  change what that array shows: the variable is not assigned, record addresses are handed
  out upwards, the identity field of a record that exists is not written, and the array
  gains exactly the addresses \<open>N\<close>, all of them new.
\<close>

definition tempRefs :: "server \<Rightarrow> nat list" where
  "tempRefs s = arrays s (tempUserList s)"

definition effect :: "server \<Rightarrow> server \<Rightarrow> nat set \<Rightarrow> bool" where
  "effect s s' N =
     (tempUserList s' = tempUserList s \<and> nextObject s \<le> nextObject s' \<and>
      (\<forall>r < nextObject s. idx (objects s' r) 0 = idx (objects s r) 0) \<and>
      set (tempRefs s') = set (tempRefs s) \<union> N \<and>
      (\<forall>r \<in> N. nextObject s \<le> r \<and> r < nextObject s'))"

text \<open>The lookup of \<^verbatim>\<open>case 'updateColor'\<close> as a predicate on a record.\<close>

definition sameIdentity :: "string \<Rightarrow> jsval list \<Rightarrow> bool" where
  "sameIdentity i u = numEq (parseInt (Str i)) (parseInt (idx u 0))"

text \<open>
  The outbound messages that carry paint instructions, and the error report for a message.
\<close>

fun isPaint :: "action \<Rightarrow> bool" where
  "isPaint (Send ws (Msg t v)) = (t = ''paint'')"
| "isPaint (Broadcast (Msg t v)) = (t = ''paint'')"
| "isPaint _ = False"

definition malformedInput :: "connection \<Rightarrow> message \<Rightarrow> action" where
  "malformedInput ws m = Send ws (ErrorMsg ''Client sent an unrecognized message format'' m)"

section \<open>Evaluating the stores\<close>

text \<open>
  A store update written with its argument is rewritten only where the store is read. The
  operations on the stores are given equations in this form for evaluation, so that a state
  reached by a run is a term of moderate size.
\<close>

definition upd :: "(nat \<Rightarrow> 'a) \<Rightarrow> nat \<Rightarrow> 'a \<Rightarrow> nat \<Rightarrow> 'a" where
  "upd f a b x = (if x = a then b else f x)"

lemma upd_eq: "upd f a b = f(a := b)"
  by (rule ext) (simp add: upd_def)

lemma alloc_code [code]:
  "alloc s v =
     (nextObject s,
      s\<lparr>objects := upd (objects s) (nextObject s) v, nextObject := Suc (nextObject s)\<rparr>)"
  by (simp add: alloc_def upd_eq)

lemma push_code [code]:
  "push s a r = s\<lparr>arrays := upd (arrays s) a (arrays s a @ [r])\<rparr>"
  by (simp add: push_def upd_eq)

lemma sortArray_code [code]:
  "sortArray s a = s\<lparr>arrays := upd (arrays s) a (sortRefs s (arrays s a))\<rparr>"
  by (simp add: sortArray_def upd_eq)

lemma setField1_code [code]:
  "setField1 s r v = s\<lparr>objects := upd (objects s) r (set1 (objects s r) v)\<rparr>"
  by (simp add: setField1_def upd_eq)

lemma sendKeepAlive_code [code]:
  "sendKeepAlive s =
     (s\<lparr>userListStale := True,
        arrays := upd (arrays s) (nextArray s) [],
        tempUserList := nextArray s,
        nextArray := Suc (nextArray s)\<rparr>,
      [broadcast ''ping'' []])"
  by (simp add: sendKeepAlive_def upd_eq)

section \<open>Arrays, sorting and identities\<close>

declare generateUUID_loop.simps [simp del]

lemma idx_set1_0: "idx (set1 u v) 0 = idx u 0"
  by (cases "(u, v)" rule: set1.cases) (simp_all add: idx_def)

lemma idx_set1_1: "idx (set1 u v) (Suc 0) = v"
  by (cases "(u, v)" rule: set1.cases) (simp_all add: idx_def)

lemma js_split_not_Nil: "js_split c s \<noteq> []"
  by (induction s) (auto split: list.splits)

text \<open>
  Rounding to a double keeps the sign of a difference of two doubles: doubles are multiples
  of \<open>2^-1074\<close>, so a difference that is not 0 is at least that far from 0.
\<close>

declare bitlen.simps [simp del]

lemma bitlen_lower: "0 < n \<Longrightarrow> 2 ^ (bitlen n - 1) \<le> n"
proof (induction n rule: bitlen.induct)
  case (1 n)
  show ?case
  proof (cases "n div 2 \<le> 0")
    case True
    then have "n div 2 = 0" using 1(2) by simp
    then have "bitlen n = 1"
      using 1(2) by (simp add: bitlen.simps [of n] bitlen.simps [of 0])
    then show ?thesis using 1(2) by simp
  next
    case False
    then have h: "0 < n div 2" by simp
    have b: "bitlen n = Suc (bitlen (n div 2))"
      using 1(2) by (simp add: bitlen.simps [of n])
    have "0 < bitlen (n div 2)"
      using h by (simp add: bitlen.simps [of "n div 2"])
    then have "(2::int) ^ (bitlen n - 1) = 2 * 2 ^ (bitlen (n div 2) - 1)"
      unfolding b by (cases "bitlen (n div 2)") simp_all
    also have "\<dots> \<le> 2 * (n div 2)"
      using 1(1) [OF _ h] 1(2) by simp
    also have "\<dots> \<le> n" by simp
    finally show ?thesis .
  qed
qed

lemma roundHalfEven_ge: "\<lfloor>q\<rfloor> \<le> roundHalfEven q"
  by (simp add: roundHalfEven_def Let_def)

lemma roundDouble_0: "roundDouble 0 = Finite 0"
  by (simp add: roundDouble_def)

lemma roundDouble_grid:
  assumes "roundDouble q = Finite v"
  shows "\<exists>k::int. v = of_int k / 2 ^ 1074"
proof (cases "of_int \<lfloor>q\<rfloor> = q \<and> q < 2 ^ 53")
  case True
  then have "v = q" using assms by (simp add: roundDouble_def)
  moreover have "q = of_int \<lfloor>q\<rfloor>" using True by (simp only:)
  moreover have "(of_int \<lfloor>q\<rfloor> :: rat) = of_int (\<lfloor>q\<rfloor> * 2 ^ 1074) / 2 ^ 1074" by simp
  ultimately have "v = of_int (\<lfloor>q\<rfloor> * 2 ^ 1074) / 2 ^ 1074" by (simp only:)
  then show ?thesis by blast
next
  case False
  define e where "e = bitlen \<lfloor>q * 2 ^ 1074\<rfloor> - 53"
  define m where "m = roundHalfEven (q * 2 ^ 1074 / 2 ^ e)"
  have "roundDouble q =
      (if 2 ^ 2098 \<le> m * 2 ^ e then PosInfinity else Finite (of_int (m * 2 ^ e) / 2 ^ 1074))"
    using False unfolding roundDouble_def m_def e_def Let_def by (simp only: if_False)
  then have "v = of_int (m * 2 ^ e) / 2 ^ 1074"
    using assms by (auto simp only: number.inject number.distinct split: if_splits)
  then show ?thesis by blast
qed

lemma roundDouble_positive:
  assumes "0 < k"
  shows "positive (roundDouble (of_int k / 2 ^ 1074))"
proof (cases "of_int \<lfloor>of_int k / 2 ^ 1074 :: rat\<rfloor> = (of_int k / 2 ^ 1074 :: rat) \<and> (of_int k / 2 ^ 1074 :: rat) < 2 ^ 53")
  case True
  then have "roundDouble (of_int k / 2 ^ 1074) = Finite (of_int k / 2 ^ 1074)"
    by (simp add: roundDouble_def)
  then show ?thesis using assms by simp
next
  case False
  define e where "e = bitlen k - 53"
  define m where "m = roundHalfEven (of_int k / 2 ^ e)"
  have r: "(of_int k / 2 ^ 1074 :: rat) * 2 ^ 1074 = of_int k" by simp
  have "(2::int) ^ e \<le> 2 ^ (bitlen k - 1)"
    unfolding e_def by (rule power_increasing) simp_all
  also have "\<dots> \<le> k" using assms by (rule bitlen_lower)
  finally have "(2::int) ^ e \<le> k" .
  then have "(of_int (2 ^ e) :: rat) \<le> of_int k" by (simp only: of_int_le_iff)
  then have "(1::rat) \<le> of_int k / 2 ^ e" by (simp add: le_divide_eq)
  then have "1 \<le> \<lfloor>of_int k / 2 ^ e :: rat\<rfloor>" by (simp add: le_floor_iff)
  then have m: "1 \<le> m" unfolding m_def using roundHalfEven_ge [of "of_int k / 2 ^ e"] by linarith
  then have "(0::rat) < of_int m * 2 ^ e" by simp
  then have p: "(0::rat) < of_int (m * 2 ^ e) / 2 ^ 1074" by simp
  have "roundDouble (of_int k / 2 ^ 1074) =
      (if 2 ^ 2098 \<le> m * 2 ^ e then PosInfinity else Finite (of_int (m * 2 ^ e) / 2 ^ 1074))"
    using False unfolding roundDouble_def r m_def e_def Let_def by (simp only: if_False floor_of_int)
  then show ?thesis using p by simp
qed

lemma positive_negate: "positive x \<Longrightarrow> \<not> positive (negate x)"
  by (cases x) simp_all

lemma toDouble_positive: "positive (toDouble (of_int k / 2 ^ 1074)) = (0 < k)"
proof -
  consider "0 < k" | "k = 0" | "k < 0" by linarith
  then show ?thesis
  proof cases
    case 1
    then show ?thesis using roundDouble_positive [of k] by (simp add: toDouble_def not_less)
  next
    case 2
    then show ?thesis by (simp add: toDouble_def roundDouble_0)
  next
    case 3
    then have "positive (roundDouble (of_int (- k) / 2 ^ 1074))"
      by (intro roundDouble_positive) simp
    then have "\<not> positive (negate (roundDouble (- (of_int k / 2 ^ 1074))))"
      using positive_negate by simp
    then show ?thesis using 3 by (simp add: toDouble_def)
  qed
qed

lemma negate_Finite: "negate x = Finite v \<Longrightarrow> x = Finite (- v)"
  by (cases x) auto

lemma grid_minus:
  "\<exists>k::int. v = of_int k / 2 ^ 1074 \<Longrightarrow> \<exists>k::int. - v = (of_int k / 2 ^ 1074 :: rat)"
proof -
  assume "\<exists>k::int. v = of_int k / 2 ^ 1074"
  then obtain k :: int where "v = of_int k / 2 ^ 1074" by blast
  then have "- v = of_int (- k) / 2 ^ 1074" by simp
  then show ?thesis by blast
qed

lemma decimalLiteral_grid:
  "decimalLiteral cs = Finite v \<Longrightarrow> \<exists>k::int. v = of_int k / 2 ^ 1074"
  by (auto simp: decimalLiteral_def Let_def dest: roundDouble_grid split: if_splits option.splits)

lemma integerLiteral_grid:
  "integerLiteral R cs = Finite v \<Longrightarrow> \<exists>k::int. v = of_int k / 2 ^ 1074"
  by (auto simp: integerLiteral_def dest: roundDouble_grid split: if_splits)

lemma toNumber_str_grid:
  assumes "toNumber_str s = Finite v"
  shows "\<exists>k::int. v = of_int k / 2 ^ 1074"
proof -
  define t where "t = trimEnd (trimStart (codes s))"
  define u where "u = (if isSign t then tl t else t)"
  have "toNumber_str s =
     (if t = [] then Finite 0
      else if hasPrefix t ''xX'' then integerLiteral 16 (drop 2 t)
      else if hasPrefix t ''oO'' then integerLiteral 8 (drop 2 t)
      else if hasPrefix t ''bB'' then integerLiteral 2 (drop 2 t)
      else if u = codes ''Infinity'' then (if isMinus t then NegInfinity else PosInfinity)
      else if isMinus t then negate (decimalLiteral u)
      else decimalLiteral u)"
    by (simp only: toNumber_str_def Let_def t_def u_def)
  then consider "v = 0" | R cs where "integerLiteral R cs = Finite v"
    | "decimalLiteral u = Finite v" | "negate (decimalLiteral u) = Finite v"
    using assms by (auto split: if_splits)
  then show ?thesis
  proof cases
    case 1
    then have "v = of_int 0 / 2 ^ 1074" by simp
    then show ?thesis by blast
  next
    case 2
    then show ?thesis by (rule integerLiteral_grid)
  next
    case 3
    then show ?thesis by (rule decimalLiteral_grid)
  next
    case 4
    then have "decimalLiteral u = Finite (- v)" by (rule negate_Finite)
    then have "\<exists>k::int. - v = of_int k / 2 ^ 1074" by (rule decimalLiteral_grid)
    then have "\<exists>k::int. - (- v) = of_int k / 2 ^ 1074" by (rule grid_minus)
    then show ?thesis by simp
  qed
qed

lemma toNumber_grid:
  assumes "toNumber x = Finite v"
  shows "\<exists>k::int. v = of_int k / 2 ^ 1074"
proof (cases x)
  case (Num n)
  then have "v = of_int (n * 2 ^ 1074) / 2 ^ 1074" using assms by simp
  then show ?thesis by blast
next
  case (Str s)
  then show ?thesis using assms toNumber_str_grid by simp
next
  case Undefined
  then show ?thesis using assms by simp
qed

lemma subtract_positive:
  assumes "toNumber x \<noteq> NaN" "toNumber y \<noteq> NaN"
  shows "positive (subtract (toNumber x) (toNumber y)) = (toNumber y < toNumber x)"
proof (cases "toNumber x")
  case (Finite a)
  note xa = this
  show ?thesis
  proof (cases "toNumber y")
    case (Finite b)
    obtain ka kb :: int where a: "a = of_int ka / 2 ^ 1074" and b: "b = of_int kb / 2 ^ 1074"
      using toNumber_grid [OF xa] toNumber_grid [OF Finite] by blast
    have "a - b = of_int (ka - kb) / 2 ^ 1074" unfolding a b by (simp add: diff_divide_distrib)
    then have "positive (toDouble (a - b)) = (0 < ka - kb)" by (simp only: toDouble_positive)
    also have "\<dots> = (b < a)" unfolding a b by (simp add: divide_less_cancel)
    finally show ?thesis using xa Finite by (auto simp: less_number_def)
  qed (use xa assms in \<open>simp_all add: less_number_def\<close>)
next
  case PosInfinity
  then show ?thesis using assms by (cases "toNumber y") (simp_all add: less_number_def)
next
  case NegInfinity
  then show ?thesis using assms by (cases "toNumber y") (simp_all add: less_number_def)
qed (use assms in simp)

lemma after_numeric:
  "hasNumericId x \<Longrightarrow> hasNumericId y \<Longrightarrow>
   after userSortFunc x y = (numericId y < numericId x)"
  by (simp add: after_def userSortFunc_def hasNumericId_def numericId_def subtract_positive)

lemma bitlen_upper: "n < 2 ^ bitlen n"
proof (induction n rule: bitlen.induct)
  case (1 n)
  show ?case
  proof (cases "n \<le> 0")
    case True
    then have "bitlen n = 0" by (simp add: bitlen.simps [of n])
    then show ?thesis using True by simp
  next
    case False
    then have b: "bitlen n = Suc (bitlen (n div 2))" by (simp add: bitlen.simps [of n])
    have "n div 2 < 2 ^ bitlen (n div 2)" using 1 False by simp
    then have "n < 2 * 2 ^ bitlen (n div 2)" by linarith
    then show ?thesis unfolding b by simp
  qed
qed

lemma bitlen_shift: "0 < n \<Longrightarrow> bitlen (n * 2 ^ k) = bitlen n + k"
proof (induction k)
  case 0
  then show ?case by simp
next
  case (Suc k)
  have e: "n * 2 ^ Suc k = 2 * (n * 2 ^ k)" by simp
  have "0 < 2 * (n * 2 ^ k)" using Suc.prems by simp
  then have "bitlen (2 * (n * 2 ^ k)) = Suc (bitlen (n * 2 ^ k))"
    by (simp add: bitlen.simps [of "2 * (n * 2 ^ k)"])
  then show ?case using Suc unfolding e by simp
qed

text \<open>
  For an integer from \<open>2^53\<close> on, the rounding can be computed in units of 1. The equation
  is used to evaluate \<open>roundDouble\<close>.
\<close>

lemma roundDouble_integer:
  assumes "(2::int) ^ 53 \<le> n"
  shows "roundDouble (of_int n) =
     (let e = bitlen n - 53; m = roundHalfEven (of_int n / 2 ^ e)
      in if 2 ^ 1024 \<le> m * 2 ^ e then PosInfinity else Finite (of_int (m * 2 ^ e)))"
proof -
  define e where "e = bitlen n - 53"
  define m where "m = roundHalfEven (of_int n / 2 ^ e)"
  have pos: "0 < n" using assms by (smt (verit) zero_less_power)
  have "(2::int) ^ 53 < 2 ^ bitlen n" using assms bitlen_upper [of n] by linarith
  then have "53 < bitlen n" by (simp only: power_strict_increasing_iff)
  then have et: "bitlen (n * 2 ^ 1074) - 53 = e + 1074"
    using bitlen_shift [OF pos, of 1074] by (simp add: e_def)
  have fl: "\<lfloor>(of_int n :: rat) * 2 ^ 1074\<rfloor> = n * 2 ^ 1074"
  proof -
    have "(of_int n :: rat) * 2 ^ 1074 = of_int (n * 2 ^ 1074)" by simp
    then show ?thesis by (simp only: floor_of_int)
  qed
  have dv: "(of_int n :: rat) * 2 ^ 1074 / 2 ^ (e + 1074) = of_int n / 2 ^ e"
    by (simp add: power_add)
  have big: "\<not> (of_int \<lfloor>of_int n :: rat\<rfloor> = (of_int n :: rat) \<and> (of_int n :: rat) < 2 ^ 53)"
  proof -
    have "(of_int ((2::int) ^ 53) :: rat) \<le> of_int n" using assms by (simp only: of_int_le_iff)
    then show ?thesis by simp
  qed
  have ov: "(2 ^ 2098 \<le> m * 2 ^ (e + 1074)) = (2 ^ 1024 \<le> m * 2 ^ e)"
  proof -
    have "(2::int) ^ 2098 = 2 ^ 1024 * 2 ^ 1074" by (simp only: power_add [symmetric]) simp
    moreover have "m * 2 ^ (e + 1074) = (m * 2 ^ e) * 2 ^ 1074" by (simp add: power_add)
    ultimately show ?thesis by (simp only: mult_le_cancel_right) simp
  qed
  have vl: "(of_int (m * 2 ^ (e + 1074)) :: rat) / 2 ^ 1074 = of_int (m * 2 ^ e)"
    by (simp add: power_add)
  have "roundDouble (of_int n) =
      (if 2 ^ 2098 \<le> m * 2 ^ (e + 1074) then PosInfinity
       else Finite (of_int (m * 2 ^ (e + 1074)) / 2 ^ 1074))"
    unfolding roundDouble_def Let_def fl et dv m_def using big by (simp only: if_False)
  then show ?thesis unfolding ov vl by (simp only: Let_def e_def m_def)
qed

lemma roundDouble_code [code]:
  "roundDouble q =
     (if of_int \<lfloor>q\<rfloor> = q then
        (if q < 2 ^ 53 then Finite q
         else (let e = bitlen \<lfloor>q\<rfloor> - 53; m = roundHalfEven (q / 2 ^ e)
               in if 2 ^ 1024 \<le> m * 2 ^ e then PosInfinity else Finite (of_int (m * 2 ^ e))))
      else (let r = q * 2 ^ 1074;
                e = bitlen \<lfloor>r\<rfloor> - 53;
                m = roundHalfEven (r / 2 ^ e)
            in if 2 ^ 2098 \<le> m * 2 ^ e then PosInfinity
               else Finite (of_int (m * 2 ^ e) / 2 ^ 1074)))"
proof (cases "of_int \<lfloor>q\<rfloor> = q")
  case True
  define n where "n = \<lfloor>q\<rfloor>"
  have q: "q = of_int n" using True by (simp only: n_def)
  have fl: "\<lfloor>(of_int n :: rat)\<rfloor> = n" by simp
  show ?thesis
  proof (cases "q < 2 ^ 53")
    case lt: True
    then show ?thesis using True by (simp add: roundDouble_def)
  next
    case False
    then have "(of_int ((2::int) ^ 53) :: rat) \<le> of_int n" unfolding q by simp
    then have "(2::int) ^ 53 \<le> n" by (simp only: of_int_le_iff)
    then have "roundDouble (of_int n) =
     (let e = bitlen n - 53; m = roundHalfEven (of_int n / 2 ^ e)
      in if 2 ^ 1024 \<le> m * 2 ^ e then PosInfinity else Finite (of_int (m * 2 ^ e)))"
      by (rule roundDouble_integer)
    then show ?thesis using False unfolding q fl by (simp only: if_True if_False simp_thms)
  qed
next
  case False
  then show ?thesis by (simp only: roundDouble_def if_False simp_thms)
qed

text \<open>
  The sort keeps the records; on records whose identities all convert to numbers it is the
  stable sort by that number.
\<close>

lemma mset_insertBy: "mset (insertBy cmp x ys) = add_mset x (mset ys)"
  by (induction ys) auto

lemma mset_stableSort: "mset (stableSort cmp xs) = mset xs"
  by (induction xs) (auto simp: stableSort_def mset_insertBy)

lemma map_insertBy:
  "map h (insertBy (\<lambda>p q. c (h p) (h q)) r rs) = insertBy c (h r) (map h rs)"
  by (induction rs) (auto simp: after_def)

lemma map_stableSort:
  "map h (stableSort (\<lambda>p q. c (h p) (h q)) rs) = stableSort c (map h rs)"
  by (induction rs) (auto simp: stableSort_def map_insertBy)

lemma insertBy_insort_key:
  "hasNumericId x \<Longrightarrow> list_all hasNumericId ys \<Longrightarrow>
   insertBy userSortFunc x ys = insort_key numericId x ys"
  by (induction ys) (auto simp: after_numeric)

lemma stableSort_sort_key:
  "list_all hasNumericId xs \<Longrightarrow> stableSort userSortFunc xs = sort_key numericId xs"
proof (induction xs)
  case Nil
  then show ?case by (simp add: stableSort_def)
next
  case (Cons x xs)
  then have "stableSort userSortFunc xs = sort_key numericId xs" by simp
  moreover have "list_all hasNumericId (sort_key numericId xs)"
    using Cons.prems by (simp add: list_all_iff)
  ultimately show ?case using Cons.prems
    by (simp add: stableSort_def insertBy_insort_key)
qed

lemma mset_permute: "mset (permute p xs) = mset xs"
proof (cases "sort p = [0..<length xs]")
  case True
  have "mset (map (nth xs) p) = image_mset (nth xs) (mset (sort p))" by simp
  also have "\<dots> = mset (map (nth xs) [0..<length xs])" unfolding True by simp
  also have "\<dots> = mset xs" by (simp only: map_nth)
  finally show ?thesis using True by (simp add: permute_def)
next
  case False
  then show ?thesis by (simp add: permute_def)
qed

lemma mset_sortRefs: "mset (sortRefs s rs) = mset rs"
  by (simp add: sortRefs_def mset_stableSort mset_permute)

lemma set_sortRefs: "set (sortRefs s rs) = set rs"
  using mset_sortRefs [of s rs] by (metis set_mset_mset)

lemma sortRefs_numeric:
  assumes "list_all hasNumericId (map (objects s) rs)"
  shows "map (objects s) (sortRefs s rs) = sort_key numericId (map (objects s) rs)"
proof -
  have "list_all (\<lambda>r. hasNumericId (objects s r)) rs"
    using assms by (simp add: list_all_iff)
  then have "sortRefs s rs = stableSort (\<lambda>p q. userSortFunc (objects s p) (objects s q)) rs"
    by (simp add: sortRefs_def)
  then show ?thesis using assms by (simp add: map_stableSort stableSort_sort_key)
qed

lemma authoritative_timeout:
  "authoritative (fst (sendKeepAlive_timeout s)) = map (objects s) (sortRefs s (tempRefs s))"
  by (simp add: sendKeepAlive_timeout_def Let_def authoritative_def users_def tempRefs_def
      sortArray_def)

lemma mset_authoritative_timeout:
  "mset (authoritative (fst (sendKeepAlive_timeout s))) = mset (provisional s)"
  by (simp only: authoritative_timeout provisional_def users_def tempRefs_def mset_map
      mset_sortRefs)

lemma authoritative_timeout_numeric:
  "list_all hasNumericId (provisional s) \<Longrightarrow>
   authoritative (fst (sendKeepAlive_timeout s)) = sort_key numericId (provisional s)"
  by (simp add: authoritative_timeout provisional_def users_def tempRefs_def sortRefs_numeric)

text \<open>
  \<^verbatim>\<open>generateUUID\<close> returns, and what it returns is the least positive integer that no record
  of \<^verbatim>\<open>userList\<close> has as its parsed identity.
\<close>

lemma generateUUID_loop_least:
  "uuid < generateUUID_loop us uuid \<and> \<not> found us (generateUUID_loop us uuid) \<and>
   (\<forall>k. uuid < k \<and> k < generateUUID_loop us uuid \<longrightarrow> found us k)"
proof (induction us uuid rule: generateUUID_loop.induct)
  case (1 us uuid)
  show ?case
  proof (cases "found us (uuid + 1)")
    case True
    note IH = 1 [OF True]
    have eq: "generateUUID_loop us uuid = generateUUID_loop us (uuid + 1)"
      using True by (subst generateUUID_loop.simps) simp
    have "found us k" if "uuid < k" "k < generateUUID_loop us (uuid + 1)" for k
    proof (cases "k = uuid + 1")
      case True
      then show ?thesis using \<open>found us (uuid + 1)\<close> by simp
    next
      case False
      then have "uuid + 1 < k" using that by simp
      then show ?thesis using that IH by blast
    qed
    moreover have "uuid < generateUUID_loop us (uuid + 1)" using IH by linarith
    ultimately show ?thesis unfolding eq using IH by blast
  next
    case False
    then have "generateUUID_loop us uuid = uuid + 1"
      by (subst generateUUID_loop.simps) simp
    then show ?thesis using False by auto
  qed
qed

lemma generateUUID_least:
  "0 < generateUUID s \<and> \<not> found (authoritative s) (generateUUID s) \<and>
   (\<forall>k. 0 < k \<and> k < generateUUID s \<longrightarrow> found (authoritative s) k)"
  unfolding generateUUID_def by (rule generateUUID_loop_least)

section \<open>What the handlers do to the provisional list\<close>

lemma push_simps:
  "objects (push s a r) = objects s" "nextObject (push s a r) = nextObject s"
  "userList (push s a r) = userList s" "tempUserList (push s a r) = tempUserList s"
  "canvasState (push s a r) = canvasState s" "userListStale (push s a r) = userListStale s"
  "set (arrays (push s a r) b) = (if b = a then insert r (set (arrays s a)) else set (arrays s b))"
  by (simp_all add: push_def)

lemma sortArray_simps:
  "objects (sortArray s a) = objects s" "nextObject (sortArray s a) = nextObject s"
  "userList (sortArray s a) = userList s" "tempUserList (sortArray s a) = tempUserList s"
  "canvasState (sortArray s a) = canvasState s" "userListStale (sortArray s a) = userListStale s"
  "set (arrays (sortArray s a) b) = set (arrays s b)"
  by (simp_all add: sortArray_def set_sortRefs)

lemma addUser_effect:
  assumes "addUser s = (n, s')"
  shows "effect s s' {nextObject s}" and "idx (objects s' (nextObject s)) 0 = Num n" 
    and "nextObject s' = Suc (nextObject s)" and "n = generateUUID s"
  using assms
  by (auto simp: addUser_def alloc_def Let_def effect_def tempRefs_def idx_def push_simps sortArray_simps split: if_splits)

lemma userAccepted_effect:
  assumes "userAccepted s ws d = (s', out, v)"
  shows "effect s s' {}" and "announcedIds out = []"
  using assms
  by (auto simp: userAccepted_def setField1_def Let_def effect_def tempRefs_def idx_set1_0 announcedIds_def broadcast_def split: option.splits)

lemma paint_effect:
  assumes "paint s d = (s', out, v)"
  shows "effect s s' {}" and "announcedIds out = []"
  using assms
  by (auto simp: paint_def Let_def effect_def tempRefs_def announcedIds_def broadcast_def split: prod.splits)

lemma updateColor_effect:
  assumes "updateColor s d = Inr (s', out, v)"
  shows "effect s s' {}" and "announcedIds out = []"
  using assms
  by (auto simp: updateColor_def setField1_def Let_def effect_def tempRefs_def idx_set1_0 announcedIds_def broadcast_def split: option.splits if_splits)


lemma idx_set0: "idx (set0 u v) 0 = v"
  by (cases "(u, v)" rule: set0.cases) (simp_all add: idx_def)

lemma effect_trans:
  assumes "effect s s1 N1" "effect s1 s2 N2"
  shows "effect s s2 (N1 \<union> N2)"
  using assms unfolding effect_def by (auto simp: Un_assoc) 

lemma effect_ident:
  assumes "effect s s' N" "r < nextObject s"
  shows "idx (objects s' r) 0 = idx (objects s r) 0"
  using assms unfolding effect_def by simp

lemma alloc_push_effect:
  "effect s (push (snd (alloc s v)) (tempUserList s) (nextObject s)) {nextObject s}"
  by (auto simp: effect_def tempRefs_def alloc_def push_simps)

lemma pong_effect:
  assumes "pong s ws d = (s', out, v)"
  shows "\<exists>N. effect s s' N \<and>
    (\<lambda>r. idx (objects s' r) 0) ` N =
      set (repliedId (Message ws \<lparr>messageType = ''pong'', data = Some d\<rparr>)) \<union>
      set (announcedIds out)"
proof (cases "numEq (parseInt (idx (map Str (js_split CHR '','' d)) 0)) (Finite (- 1))")
  case True
  obtain n sa where a: "addUser s = (n, sa)" by (cases "addUser s")
  let ?u = "set0 (map Str (js_split CHR '','' d)) (Num n)"
  have s': "s' = push (snd (alloc sa ?u)) (tempUserList sa) (nextObject sa)"
    and out: "out = [Send ws (Msg ''announceUUID'' (Some (Num n)))]"
    using assms True a by (simp_all add: pong_def Let_def alloc_def)
  have e1: "effect s sa {nextObject s}" and n1: "idx (objects sa (nextObject s)) 0 = Num n"
    and nx: "nextObject sa = Suc (nextObject s)"
    using addUser_effect [OF a] by simp_all
  have e2: "effect sa s' {nextObject sa}" unfolding s' by (rule alloc_push_effect)
  have "effect s s' ({nextObject s} \<union> {nextObject sa})" by (rule effect_trans [OF e1 e2])
  moreover have "idx (objects s' (nextObject s)) 0 = Num n"
    using effect_ident [OF e2, of "nextObject s"] n1 nx by simp
  moreover have "idx (objects s' (nextObject sa)) 0 = Num n"
    unfolding s' by (simp add: push_simps alloc_def idx_set0)
  ultimately show ?thesis using True out
    by (intro exI [of _ "{nextObject s} \<union> {nextObject sa}"]) (simp add: announcedIds_def Let_def)
next
  case False
  let ?u = "map Str (js_split CHR '','' d)"
  have s': "s' = push (snd (alloc s ?u)) (tempUserList s) (nextObject s)" and out: "out = []"
    using assms False by (simp_all add: pong_def Let_def alloc_def)
  have "effect s s' {nextObject s}" unfolding s' by (rule alloc_push_effect)
  moreover have "idx (objects s' (nextObject s)) 0 = idx ?u 0"
    unfolding s' by (simp add: push_simps alloc_def)
  ultimately show ?thesis using False out
    by (intro exI [of _ "{nextObject s}"]) (simp add: announcedIds_def Let_def)
qed

lemma effect_refl: "effect s s {}"
  by (simp add: effect_def)

lemma step_effect:
  assumes "inSweep e" "step s e = Inr (s', out)"
  shows "\<exists>N. effect s s' N \<and>
    (\<lambda>r. idx (objects s' r) 0) ` N = set (repliedId e) \<union> set (announcedIds out)"
proof (cases e)
  case (Connection ws)
  obtain n sa where a: "addUser s = (n, sa)" by (cases "addUser s")
  then have "s' = sa" "out = [Send ws (Msg ''announceUUID'' (Some (Num n)))]"
    using assms Connection by (simp_all add: onConnection_def)
  then show ?thesis using addUser_effect [OF a] Connection
    by (intro exI [of _ "{nextObject s}"]) (simp add: announcedIds_def)
next
  case (Message ws m)
  then have om: "onMessage s ws m = Inr (s', out)" using assms by simp
  then obtain o1 v where d: "dispatch s ws m = Inr (s', o1, v)"
    and out: "out = o1 @ (if v then [] else [malformedInput ws m])"
    by (auto simp: onMessage_def malformedInput_def split: sum.splits)
  have ann: "announcedIds out = announcedIds o1"
    using out by (simp add: announcedIds_def malformedInput_def)
  consider (ua) dd where "messageType m = ''userAccepted''" "data m = Some dd"
      "userAccepted s ws dd = (s', o1, v)"
    | (po) dd where "messageType m = ''pong''" "data m = Some dd" "pong s ws dd = (s', o1, v)"
    | (pa) dd where "messageType m = ''paint''" "data m = Some dd" "paint s dd = (s', o1, v)"
    | (uc) dd where "messageType m = ''updateColor''" "data m = Some dd" "updateColor s dd = Inr (s', o1, v)"
    | (other) "messageType m \<noteq> ''pong''" "s' = s" "o1 = []"
    using d by (auto simp: dispatch_def split: if_splits option.splits)
  then show ?thesis
  proof cases
    case ua
    then show ?thesis using userAccepted_effect [OF ua(3)] Message ann
      by (intro exI [of _ "{}"]) (simp add: Let_def)
  next
    case po
    have "m = \<lparr>messageType = ''pong'', data = Some dd\<rparr>" using po by simp
    then show ?thesis using pong_effect [OF po(3)] Message ann by simp
  next
    case pa
    then show ?thesis using paint_effect [OF pa(3)] Message ann
      by (intro exI [of _ "{}"]) (simp add: Let_def)
  next
    case uc
    then show ?thesis using updateColor_effect [OF uc(3)] Message ann
      by (intro exI [of _ "{}"]) (simp add: Let_def)
  next
    case other
    then show ?thesis using Message ann effect_refl
      by (intro exI [of _ "{}"]) (simp add: Let_def announcedIds_def split: option.splits)
  qed
qed (use assms in simp_all)

lemma run_effect:
  assumes "list_all inSweep es" "run s es = Inr (s', out)"
  shows "\<exists>N. effect s s' N \<and>
    (\<lambda>r. idx (objects s' r) 0) ` N = set (repliedIds es) \<union> set (announcedIds out)"
  using assms
proof (induction es arbitrary: s out)
  case Nil
  then show ?case using effect_refl by (intro exI [of _ "{}"]) (simp add: repliedIds_def announcedIds_def)
next
  case (Cons e es)
  from Cons.prems obtain s1 o1 o2 where st: "step s e = Inr (s1, o1)"
    and rn: "run s1 es = Inr (s', o2)" and out: "out = o1 @ o2"
    by (auto split: sum.splits)
  from Cons.prems have ie: "inSweep e" and ies: "list_all inSweep es" by simp_all
  obtain N1 where e1: "effect s s1 N1"
    and i1: "(\<lambda>r. idx (objects s1 r) 0) ` N1 = set (repliedId e) \<union> set (announcedIds o1)"
    using step_effect [OF ie st] by blast
  obtain N2 where e2: "effect s1 s' N2"
    and i2: "(\<lambda>r. idx (objects s' r) 0) ` N2 = set (repliedIds es) \<union> set (announcedIds o2)"
    using Cons.IH [OF ies rn] by blast
  have "\<forall>r\<in>N1. r < nextObject s1" using e1 by (simp add: effect_def)
  then have "(\<lambda>r. idx (objects s' r) 0) ` N1 = (\<lambda>r. idx (objects s1 r) 0) ` N1"
    using effect_ident [OF e2] by (intro image_cong) auto
  then have "(\<lambda>r. idx (objects s' r) 0) ` (N1 \<union> N2) =
      set (repliedIds (e # es)) \<union> set (announcedIds out)"
    using i1 i2 out by (auto simp: image_Un repliedIds_def announcedIds_def)
  then show ?case using effect_trans [OF e1 e2] by blast
qed


lemma run_append:
  "run s (es @ fs) =
     (case run s es of
        Inl err \<Rightarrow> Inl err
      | Inr (s1, o1) \<Rightarrow>
          (case run s1 fs of Inl err \<Rightarrow> Inl err | Inr (s2, o2) \<Rightarrow> Inr (s2, o1 @ o2)))"
  by (induction es arbitrary: s) (auto split: sum.splits)

lemma run_then_timeout:
  assumes "run s (es @ [Timeout]) = Inr (s', out)"
  obtains s2 o2 where "run s es = Inr (s2, o2)" "s' = fst (sendKeepAlive_timeout s2)"
    "out = o2 @ snd (sendKeepAlive_timeout s2)"
  using assms by (auto simp: run_append split: sum.splits prod.splits)

lemma timeout_out:
  "snd (sendKeepAlive_timeout s) =
     [broadcast ''announceConnectedUsers'' (joinUsers (authoritative (fst (sendKeepAlive_timeout s))))]"
  by (simp add: sendKeepAlive_timeout_def Let_def authoritative_def users_def)

lemma ident_provisional:
  "set (map ident (provisional s)) = (\<lambda>r. idx (objects s r) 0) ` set (tempRefs s)"
  by (auto simp: provisional_def users_def tempRefs_def ident_def)

lemma ident_authoritative_timeout:
  "set (map ident (authoritative (fst (sendKeepAlive_timeout s)))) = set (map ident (provisional s))"
proof -
  have "set (authoritative (fst (sendKeepAlive_timeout s))) = set (provisional s)"
    using mset_authoritative_timeout [of s] by (metis set_mset_mset)
  then show ?thesis by simp
qed

lemma sorted_authoritative_timeout:
  assumes "list_all hasNumericId (authoritative (fst (sendKeepAlive_timeout s)))"
  shows "sorted (map numericId (authoritative (fst (sendKeepAlive_timeout s))))"
proof -
  have "set (authoritative (fst (sendKeepAlive_timeout s))) = set (provisional s)"
    using mset_authoritative_timeout [of s] by (metis set_mset_mset)
  then have "list_all hasNumericId (provisional s)"
    using assms by (simp add: list_all_iff)
  then show ?thesis by (simp add: authoritative_timeout_numeric)
qed

lemma observe_Inr:
  assumes "observe r = Inr (v, out)"
  obtains s where "r = Inr (s, out)" "view s = v"
  using assms by (auto simp: observe_def split: sum.splits)

lemma allocates_announces:
  assumes "allocates e" and "step s e = Inr (s1, out1)"
  shows "announcedIds out1 = [Num (generateUUID s)]"
proof (cases e)
  case (Connection ws)
  then show ?thesis using assms
    by (auto simp: onConnection_def addUser_def alloc_def Let_def announcedIds_def split: prod.splits)
next
  case (Message ws m)
  then obtain d where d: "data m = Some d" "messageType m = ''pong''"
    "numEq (parseInt (idx (map Str (js_split CHR '','' d)) 0)) (Finite (- 1))"
    using assms(1) by (auto split: option.splits)
  then show ?thesis using assms(2) Message
    by (auto simp: onMessage_def dispatch_def pong_def addUser_def alloc_def Let_def announcedIds_def
        split: prod.splits)
qed (use assms in simp_all)

lemma allocates_inSweep: "allocates e \<Longrightarrow> inSweep e"
  by (cases e) simp_all

lemma run_Cons_Inr:
  assumes "run s (e # es) = Inr (s', out)"
  obtains s1 o1 o2 where "step s e = Inr (s1, o1)" "run s1 es = Inr (s', o2)" "out = o1 @ o2"
  using assms by (auto split: sum.splits)

lemma find_Some_ex:
  "list_ex P xs \<Longrightarrow> \<exists>x. List.find P xs = Some x"
  by (induction xs) auto

section \<open>The sweep cycle\<close>

text \<open>
  C2 (as amended). A full sweep cycle is an event that starts the sweep, the connections and
  messages handled during the grace period, and the timeout. When the cycle completes, the
  last thing sent is the broadcast of the new user list; the identities in that list are
  exactly the identities carried by the liveness replies of the cycle (other than the
  sentinel) together with the identities that the server allocated and announced during the
  cycle; and the list is in ascending order of the numbers that its identities convert to,
  whenever they all convert to a number.
\<close>

theorem sweep_cycle_user_list:
  assumes "startsSweep e0" and "list_all inSweep es"
    and "run s (e0 # es @ [Timeout]) = Inr (s', out)"
  shows "last out = broadcast ''announceConnectedUsers'' (joinUsers (authoritative s')) \<and>
         set (map ident (authoritative s')) = set (repliedIds es) \<union> set (announcedIds out) \<and>
         (list_all hasNumericId (authoritative s') \<longrightarrow> sorted (map numericId (authoritative s')))"
proof -
  let ?s1 = "fst (sendKeepAlive s)"
  have st: "step s e0 = Inr (?s1, [broadcast ''ping'' []])"
    using assms(1) by (cases e0) (simp_all add: onClose_def sendKeepAlive_def)
  then obtain o' where r1: "run ?s1 (es @ [Timeout]) = Inr (s', o')"
    and out: "out = broadcast ''ping'' [] # o'"
    using assms(3) by (auto split: sum.splits)
  from r1 obtain s2 o2 where r2: "run ?s1 es = Inr (s2, o2)"
    and s': "s' = fst (sendKeepAlive_timeout s2)"
    and o': "o' = o2 @ snd (sendKeepAlive_timeout s2)"
    by (rule run_then_timeout)
  have empty: "tempRefs ?s1 = []"
    by (simp add: tempRefs_def sendKeepAlive_def)
  obtain N where eff: "effect ?s1 s2 N"
    and img: "(\<lambda>r. idx (objects s2 r) 0) ` N = set (repliedIds es) \<union> set (announcedIds o2)"
    using run_effect [OF assms(2) r2] by blast
  have "set (tempRefs s2) = N" using eff empty by (simp add: effect_def)
  then have ids: "set (map ident (authoritative s')) = set (repliedIds es) \<union> set (announcedIds o2)"
    using img by (simp only: s' ident_authoritative_timeout ident_provisional)
  have ann: "announcedIds out = announcedIds o2"
    by (simp add: out o' timeout_out announcedIds_def broadcast_def)
  have "last out = broadcast ''announceConnectedUsers'' (joinUsers (authoritative s'))"
    by (simp add: out o' timeout_out s')
  then show ?thesis using ids ann sorted_authoritative_timeout [of s2] s' by simp
qed

theorem sweep_cycle_user_list_witness:
  "\<forall>engine. \<exists>s' out.
     run (fst (onConnection (init engine) 1))
       (Interval # [Connection 2, Message 1 \<lparr>messageType = ''pong'', data = Some ''1,#ff0000''\<rparr>] @ [Timeout]) = Inr (s', out) \<and>
     authoritative s' = [[Str ''1'', Str ''#ff0000''], [Num 2, Str ''black'']] \<and>
     last out = Broadcast (Msg ''announceConnectedUsers'' (Some (Str ''1,#ff0000;2,black''))) \<and>
     set (map ident (authoritative s')) = {Str ''1'', Num 2} \<and>
     sorted (map numericId (authoritative s'))"
proof
  fix engine
  let ?s = "fst (onConnection (init engine) 1)"
  let ?es = "[Connection 2, Message 1 \<lparr>messageType = ''pong'', data = Some ''1,#ff0000''\<rparr>]"
  let ?out = "[Broadcast (Msg ''ping'' None), Send 2 (Msg ''announceUUID'' (Some (Num 2))),
      Broadcast (Msg ''announceConnectedUsers'' (Some (Str ''1,#ff0000;2,black'')))]"
  have "observe (run ?s (Interval # ?es @ [Timeout])) =
      Inr (([[Str ''1'', Str ''#ff0000''], [Num 2, Str ''black'']],
            [[Str ''1'', Str ''#ff0000''], [Num 2, Str ''black'']], [], False), ?out)"
    by code_simp
  then obtain s' where r: "run ?s (Interval # ?es @ [Timeout]) = Inr (s', ?out)"
    and v: "view s' = ([[Str ''1'', Str ''#ff0000''], [Num 2, Str ''black'']],
            [[Str ''1'', Str ''#ff0000''], [Num 2, Str ''black'']], [], False)"
    by (rule observe_Inr)
  have auth: "authoritative s' = [[Str ''1'', Str ''#ff0000''], [Num 2, Str ''black'']]"
    using v by (simp add: view_def)
  have h1: "startsSweep Interval" by simp
  have h2: "list_all inSweep ?es" by simp
  have num: "list_all hasNumericId (authoritative s')"
    unfolding auth by code_simp
  have rep: "set (repliedIds ?es) \<union> set (announcedIds ?out) = {Str ''1'', Num 2}"
    by code_simp
  show "\<exists>s' out.
     run ?s (Interval # ?es @ [Timeout]) = Inr (s', out) \<and>
     authoritative s' = [[Str ''1'', Str ''#ff0000''], [Num 2, Str ''black'']] \<and>
     last out = Broadcast (Msg ''announceConnectedUsers'' (Some (Str ''1,#ff0000;2,black''))) \<and>
     set (map ident (authoritative s')) = {Str ''1'', Num 2} \<and>
     sorted (map numericId (authoritative s'))"
    using sweep_cycle_user_list [OF h1 h2 r] num rep auth r by auto
qed

text \<open>
  C2 as stated fails: a connection accepted during the grace period is in the list that the
  timeout broadcasts, although no liveness reply arrived at all.
\<close>

theorem sweep_cycle_includes_new_connection:
  "\<forall>engine.
     observe (run (init engine) [Interval, Connection 1, Timeout]) =
        Inr (([[Num 1, Str ''black'']], [[Num 1, Str ''black'']], [], False),
             [Broadcast (Msg ''ping'' None), Send 1 (Msg ''announceUUID'' (Some (Num 1))),
              Broadcast (Msg ''announceConnectedUsers'' (Some (Str ''1,black'')))]) \<and>
      repliedIds [Connection 1] = []"
  by (intro allI) code_simp

text \<open>
  The order is that of the identities as numbers. Here the replies arrive with the
  identities \<^verbatim>\<open>0x10\<close> (16), \<^verbatim>\<open>9007199254740993\<close> and \<^verbatim>\<open>9007199254740992\<close> (both
  \<open>2^53\<close> as doubles) and \<^verbatim>\<open>9\<close> between spaces (9): the list that is broadcast has 9
  first, then 16, then the two others in their order of arrival.
\<close>

lemma sweep_cycle_orders_by_number:
  "\<forall>engine.
     observe (run (init engine) [Connection 1, Connection 2, Interval,
         Message 1 \<lparr>messageType = ''pong'', data = Some ''0x10,#ff0000''\<rparr>,
         Message 2 \<lparr>messageType = ''pong'', data = Some ''9007199254740993,#00ff00''\<rparr>,
         Message 1 \<lparr>messageType = ''pong'', data = Some ''9007199254740992,#0000ff''\<rparr>,
         Message 2 \<lparr>messageType = ''pong'', data = Some '' 9 ,#ffffff''\<rparr>,
         Timeout]) =
       Inr (([[Str '' 9 '', Str ''#ffffff''], [Str ''0x10'', Str ''#ff0000''],
              [Str ''9007199254740993'', Str ''#00ff00''],
              [Str ''9007199254740992'', Str ''#0000ff'']],
             [[Str '' 9 '', Str ''#ffffff''], [Str ''0x10'', Str ''#ff0000''],
              [Str ''9007199254740993'', Str ''#00ff00''],
              [Str ''9007199254740992'', Str ''#0000ff'']], [], False),
            [Send 1 (Msg ''announceUUID'' (Some (Num 1))),
             Send 2 (Msg ''announceUUID'' (Some (Num 2))), Broadcast (Msg ''ping'' None),
             Broadcast (Msg ''announceConnectedUsers''
               (Some (Str '' 9 ,#ffffff;0x10,#ff0000;9007199254740993,#00ff00;9007199254740992,#0000ff'')))])"
  by (intro allI) code_simp

section \<open>Users allocated during a sweep\<close>

text \<open>
  C10 (as amended). When the server allocates an identity, for a new connection or for a
  liveness reply that carries the sentinel \<open>-1\<close>, the identity is announced, its record is
  in the provisional list at once, and it is in the authoritative list after the next
  timeout, whatever connections and messages the server handles in between, provided
  \<^verbatim>\<open>sendKeepAlive\<close> is not called again before that timeout. The connection need not have
  answered the probe. This holds in every state, so in particular while a sweep is in
  progress.
\<close>

theorem allocated_user_survives_commit:
  assumes "allocates e" and "step s e = Inr (s1, out1)"
    and "list_all inSweep es" and "run s1 (es @ [Timeout]) = Inr (s', out)"
  shows "announcedIds out1 = [Num (generateUUID s)] \<and>
         Num (generateUUID s) \<in> set (map ident (provisional s1)) \<and>
         Num (generateUUID s) \<in> set (map ident (authoritative s'))"
proof -
  let ?n = "Num (generateUUID s)"
  have ann: "announcedIds out1 = [?n]"
    using assms(1,2) by (rule allocates_announces)
  obtain N1 where e1: "effect s s1 N1"
    and i1: "(\<lambda>r. idx (objects s1 r) 0) ` N1 = set (repliedId e) \<union> set (announcedIds out1)"
    using step_effect [OF allocates_inSweep [OF assms(1)] assms(2)] by blast
  have "?n \<in> (\<lambda>r. idx (objects s1 r) 0) ` N1"
    unfolding i1 ann by simp
  then obtain r where r: "r \<in> N1" "idx (objects s1 r) 0 = ?n"
    by auto
  then have r1: "r \<in> set (tempRefs s1)" "r < nextObject s1"
    using e1 by (auto simp: effect_def)
  then have p1: "?n \<in> set (map ident (provisional s1))"
    using r(2) unfolding ident_provisional by force
  from assms(4) obtain s2 o2 where r2: "run s1 es = Inr (s2, o2)"
    and s': "s' = fst (sendKeepAlive_timeout s2)"
    by (rule run_then_timeout)
  obtain N2 where e2: "effect s1 s2 N2"
    using run_effect [OF assms(3) r2] by blast
  have "r \<in> set (tempRefs s2)" using e2 r1(1) by (simp add: effect_def)
  moreover have "idx (objects s2 r) 0 = ?n"
    using effect_ident [OF e2 r1(2)] r(2) by simp
  ultimately have "?n \<in> set (map ident (provisional s2))"
    unfolding ident_provisional by force
  then have "?n \<in> set (map ident (authoritative s'))"
    unfolding s' ident_authoritative_timeout .
  then show ?thesis using ann p1 by simp
qed

text \<open>
  The witness: connection 1 is open when the sweep starts and does not answer; connection 2
  arrives during the grace period and completes its handshake.
\<close>

theorem allocated_user_survives_commit_witness:
  "\<forall>engine.
   userListStale (fst (sendKeepAlive (fst (onConnection (init engine) 1)))) \<and>
   (\<exists>s' out.
      run (fst (sendKeepAlive (fst (onConnection (init engine) 1))))
        (Connection 2 # [Message 2 \<lparr>messageType = ''userAccepted'', data = Some ''2,#00ff00''\<rparr>] @ [Timeout]) = Inr (s', out) \<and>
      authoritative s' = [[Num 2, Str ''#00ff00'']] \<and>
      Num 2 \<in> set (map ident (authoritative s')))"
proof
  fix engine
  let ?s = "fst (sendKeepAlive (fst (onConnection (init engine) 1)))"
  let ?e = "Connection 2"
  let ?es = "[Message 2 \<lparr>messageType = ''userAccepted'', data = Some ''2,#00ff00''\<rparr>]"
  let ?out = "[Send 2 (Msg ''announceUUID'' (Some (Num 2))),
      Broadcast (Msg ''announceConnectedUsers'' (Some (Str ''2,#00ff00'')))]"
  have "observe (run ?s (?e # ?es @ [Timeout])) =
      Inr (([[Num 2, Str ''#00ff00'']], [[Num 2, Str ''#00ff00'']], [], False), ?out)"
    by code_simp
  then obtain s' where r: "run ?s (?e # ?es @ [Timeout]) = Inr (s', ?out)"
    and v: "view s' = ([[Num 2, Str ''#00ff00'']], [[Num 2, Str ''#00ff00'']], [], False)"
    by (rule observe_Inr)
  from r obtain s1 o1 o2 where st: "step ?s ?e = Inr (s1, o1)"
    and rn: "run s1 (?es @ [Timeout]) = Inr (s', o2)"
    by (rule run_Cons_Inr)
  have h1: "allocates ?e" by simp
  have h3: "list_all inSweep ?es" by simp
  have g: "generateUUID ?s = 2" by code_simp
  have a: "authoritative s' = [[Num 2, Str ''#00ff00'']]" using v by (simp add: view_def)
  have "userListStale ?s" by (simp add: sendKeepAlive_def)
  then show "userListStale ?s \<and>
   (\<exists>s' out.
      run ?s (?e # ?es @ [Timeout]) = Inr (s', out) \<and>
      authoritative s' = [[Num 2, Str ''#00ff00'']] \<and>
      Num 2 \<in> set (map ident (authoritative s')))"
    using allocated_user_survives_commit [OF h1 st h3 rn] g r a by auto
qed

text \<open>
  C10 as stated fails when another connection closes during the grace period:
  \<^verbatim>\<open>sendKeepAlive\<close> runs again and replaces the provisional list. Here connection 1 is open
  when the sweep starts, connection 2 arrives during the grace period and is given identity
  2, and connection 1 closes; the timeout of the first sweep then commits a list without
  identity 2.
\<close>

theorem restarted_sweep_drops_allocated_user:
  "\<forall>engine.
     observe (run (init engine) [Connection 1, Interval, Connection 2, Close 1]) =
        Inr (([[Num 1, Str ''black''], [Num 2, Str ''black'']], [], [], True),
             [Send 1 (Msg ''announceUUID'' (Some (Num 1))), Broadcast (Msg ''ping'' None),
              Send 2 (Msg ''announceUUID'' (Some (Num 2))), Broadcast (Msg ''ping'' None)]) \<and>
      observe (run (init engine) [Connection 1, Interval, Connection 2, Close 1, Timeout]) =
        Inr (([], [], [], False),
             [Send 1 (Msg ''announceUUID'' (Some (Num 1))), Broadcast (Msg ''ping'' None),
              Send 2 (Msg ''announceUUID'' (Some (Num 2))), Broadcast (Msg ''ping'' None),
              Broadcast (Msg ''announceConnectedUsers'' None)])"
  by (intro allI) code_simp

section \<open>The commit at the end of the grace period\<close>

text \<open>
  C3 (as amended). The timeout callback makes the provisional list, sorted by
  \<^verbatim>\<open>userSortFunc\<close>, the authoritative list: the authoritative list then holds the records
  that the provisional list held, and when their identities all convert to numbers they
  are in ascending order of these numbers, records of equal number in the order they had
  (a stable sort). The callback broadcasts this list and lowers the flag. The provisional
  list is emptied when the next sweep starts, by \<^verbatim>\<open>sendKeepAlive\<close>.
\<close>

theorem timeout_commits_sorted_provisional:
  assumes "sendKeepAlive_timeout s = (s', out)"
  shows "mset (authoritative s') = mset (provisional s) \<and>
         (list_all hasNumericId (provisional s) \<longrightarrow>
            authoritative s' = sort_key numericId (provisional s) \<and>
            sorted (map numericId (authoritative s'))) \<and>
         out = [broadcast ''announceConnectedUsers'' (joinUsers (authoritative s'))] \<and>
         \<not> userListStale s' \<and>
         provisional (fst (sendKeepAlive s')) = []"
proof -
  have s': "s' = fst (sendKeepAlive_timeout s)" and out: "out = snd (sendKeepAlive_timeout s)"
    using assms by simp_all
  have m: "mset (authoritative s') = mset (provisional s)"
    unfolding s' by (rule mset_authoritative_timeout)
  have a: "authoritative s' = sort_key numericId (provisional s)"
    if "list_all hasNumericId (provisional s)"
    unfolding s' using that by (rule authoritative_timeout_numeric)
  have b: "out = [broadcast ''announceConnectedUsers'' (joinUsers (authoritative s'))]"
    unfolding s' out by (rule timeout_out)
  have f: "\<not> userListStale s'"
    unfolding s' by (simp add: sendKeepAlive_timeout_def Let_def)
  have e: "provisional (fst (sendKeepAlive s')) = []"
    by (simp add: sendKeepAlive_def provisional_def users_def)
  show ?thesis using m a b f e by simp
qed

text \<open>The witness: two connections, whose liveness replies arrive in the order 2, 1.\<close>

theorem timeout_commits_sorted_provisional_witness:
  "\<forall>engine. \<exists>s s' out.
     observe (run (init engine) [Connection 1, Connection 2, Interval, Message 2 \<lparr>messageType = ''pong'', data = Some ''2,#0000ff''\<rparr>, Message 1 \<lparr>messageType = ''pong'', data = Some ''1,#ff0000''\<rparr>]) =
       Inr (view s, [Send 1 (Msg ''announceUUID'' (Some (Num 1))),
                     Send 2 (Msg ''announceUUID'' (Some (Num 2))),
                     Broadcast (Msg ''ping'' None)]) \<and>
     sendKeepAlive_timeout s = (s', out) \<and>
     provisional s = [[Str ''2'', Str ''#0000ff''], [Str ''1'', Str ''#ff0000'']] \<and>
     authoritative s' = [[Str ''1'', Str ''#ff0000''], [Str ''2'', Str ''#0000ff'']] \<and>
     sorted (map numericId (authoritative s')) \<and>
     out = [Broadcast (Msg ''announceConnectedUsers'' (Some (Str ''1,#ff0000;2,#0000ff'')))]"
proof
  fix engine
  let ?es = "[Connection 1, Connection 2, Interval, Message 2 \<lparr>messageType = ''pong'', data = Some ''2,#0000ff''\<rparr>, Message 1 \<lparr>messageType = ''pong'', data = Some ''1,#ff0000''\<rparr>]"
  let ?out = "[Send 1 (Msg ''announceUUID'' (Some (Num 1))),
      Send 2 (Msg ''announceUUID'' (Some (Num 2))), Broadcast (Msg ''ping'' None)]"
  let ?v = "([[Num 1, Str ''black''], [Num 2, Str ''black'']],
      [[Str ''2'', Str ''#0000ff''], [Str ''1'', Str ''#ff0000'']], [], True)"
  have ob: "observe (run (init engine) ?es) = Inr (?v, ?out)"
    by code_simp
  then obtain s where r: "run (init engine) ?es = Inr (s, ?out)" and v: "view s = ?v"
    by (rule observe_Inr)
  have p: "provisional s = [[Str ''2'', Str ''#0000ff''], [Str ''1'', Str ''#ff0000'']]"
    using v by (simp add: view_def)
  obtain s' out where t: "sendKeepAlive_timeout s = (s', out)"
    by (cases "sendKeepAlive_timeout s")
  have num: "list_all hasNumericId (provisional s)"
    unfolding p by code_simp
  have srt: "sort_key numericId [[Str ''2'', Str ''#0000ff''], [Str ''1'', Str ''#ff0000'']] =
      [[Str ''1'', Str ''#ff0000''], [Str ''2'', Str ''#0000ff'']]"
    by code_simp
  have jn: "broadcast ''announceConnectedUsers''
        (joinUsers [[Str ''1'', Str ''#ff0000''], [Str ''2'', Str ''#0000ff'']]) =
      Broadcast (Msg ''announceConnectedUsers'' (Some (Str ''1,#ff0000;2,#0000ff'')))"
    by code_simp
  note T = timeout_commits_sorted_provisional [OF t]
  from T num have a1: "authoritative s' = sort_key numericId (provisional s)"
    and a2: "sorted (map numericId (authoritative s'))"
    by blast+
  have a3: "authoritative s' = [[Str ''1'', Str ''#ff0000''], [Str ''2'', Str ''#0000ff'']]"
    by (simp only: a1 p srt)
  from T have "out = [broadcast ''announceConnectedUsers'' (joinUsers (authoritative s'))]"
    by blast
  then have o': "out = [Broadcast (Msg ''announceConnectedUsers'' (Some (Str ''1,#ff0000;2,#0000ff'')))]"
    by (simp only: a3 jn)
  have o: "observe (run (init engine) ?es) = Inr (view s, ?out)"
    by (simp only: ob v)
  show "\<exists>s s' out.
     observe (run (init engine) ?es) = Inr (view s, ?out) \<and>
     sendKeepAlive_timeout s = (s', out) \<and>
     provisional s = [[Str ''2'', Str ''#0000ff''], [Str ''1'', Str ''#ff0000'']] \<and>
     authoritative s' = [[Str ''1'', Str ''#ff0000''], [Str ''2'', Str ''#0000ff'']] \<and>
     sorted (map numericId (authoritative s')) \<and>
     out = [Broadcast (Msg ''announceConnectedUsers'' (Some (Str ''1,#ff0000;2,#0000ff'')))]"
    using o t p a3 a2 o' by blast
qed

text \<open>
  C3 as stated fails: the callback does not clear the provisional list. After the commit
  the provisional list still shows the record committed, and a liveness reply that arrives
  after the commit (here from connection 2, which was too late for the sweep) changes the
  authoritative list without another commit.
\<close>

theorem timeout_keeps_provisional:
  "\<forall>engine.
     observe (run (init engine) [Connection 1, Connection 2, Interval, Message 1 \<lparr>messageType = ''pong'', data = Some ''1,#ff0000''\<rparr>, Timeout]) =
        Inr (([[Str ''1'', Str ''#ff0000'']], [[Str ''1'', Str ''#ff0000'']], [], False),
             [Send 1 (Msg ''announceUUID'' (Some (Num 1))),
              Send 2 (Msg ''announceUUID'' (Some (Num 2))), Broadcast (Msg ''ping'' None),
              Broadcast (Msg ''announceConnectedUsers'' (Some (Str ''1,#ff0000'')))]) \<and>
      observe (run (init engine) [Connection 1, Connection 2, Interval, Message 1 \<lparr>messageType = ''pong'', data = Some ''1,#ff0000''\<rparr>, Timeout,
                         Message 2 \<lparr>messageType = ''pong'', data = Some ''2,#0000ff''\<rparr>]) =
        Inr (([[Str ''1'', Str ''#ff0000''], [Str ''2'', Str ''#0000ff'']],
              [[Str ''1'', Str ''#ff0000''], [Str ''2'', Str ''#0000ff'']], [], False),
             [Send 1 (Msg ''announceUUID'' (Some (Num 1))),
              Send 2 (Msg ''announceUUID'' (Some (Num 2))), Broadcast (Msg ''ping'' None),
              Broadcast (Msg ''announceConnectedUsers'' (Some (Str ''1,#ff0000'')))])"
  by (intro allI) code_simp

section \<open>A colour change during a sweep\<close>

text \<open>
  C9 (as amended). While the flag \<^verbatim>\<open>userListStale\<close> is up, a colour change with two
  fields, for which \<^verbatim>\<open>parseInt\<close> of the identity equals \<^verbatim>\<open>parseInt\<close> of the identity of some
  provisional record, sets the colour of the first such record of the provisional list,
  and sends nothing: no user list is broadcast and no error is reported. Both lists keep
  their members and every other record is unchanged, so the authoritative list is
  unchanged unless that very record is also a member of it.
\<close>

theorem updateColor_during_sweep:
  assumes "userListStale s"
    and "js_split CHR '','' d = [i, c]"
    and "list_ex (sameIdentity i) (provisional s)"
  shows "\<exists>s' u. onMessage s ws \<lparr>messageType = ''updateColor'', data = Some d\<rparr> = Inr (s', []) \<and>
           List.find (\<lambda>r. sameIdentity i (objects s r)) (arrays s (tempUserList s)) = Some u \<and>
           objects s' = (objects s)(u := set1 (objects s u) (Str c)) \<and>
           idx (objects s' u) 1 = Str c \<and>
           arrays s' = arrays s \<and> userList s' = userList s \<and> tempUserList s' = tempUserList s \<and>
           canvasState s' = canvasState s \<and> userListStale s' \<and>
           (u \<notin> set (arrays s (userList s)) \<longrightarrow> authoritative s' = authoritative s)"
proof -
  have "list_ex (\<lambda>r. sameIdentity i (objects s r)) (arrays s (tempUserList s))"
    using assms(3) by (simp add: provisional_def users_def list_ex_iff)
  then obtain u where u: "List.find (\<lambda>r. sameIdentity i (objects s r)) (arrays s (tempUserList s)) = Some u"
    using find_Some_ex by blast
  let ?s' = "s\<lparr>objects := (objects s)(u := set1 (objects s u) (Str c))\<rparr>"
  have "updateColor s d = Inr (?s', [], True)"
    using assms(1,2) u by (simp add: updateColor_def setField1_def Let_def idx_def sameIdentity_def)
  then have "onMessage s ws \<lparr>messageType = ''updateColor'', data = Some d\<rparr> = Inr (?s', [])"
    by (simp add: onMessage_def dispatch_def)
  moreover have "u \<notin> set (arrays s (userList s)) \<Longrightarrow> authoritative ?s' = authoritative s"
    by (auto simp: authoritative_def users_def)
  ultimately show ?thesis using u assms(1)
    by (intro exI [of _ ?s'] exI [of _ u]) (simp add: idx_set1_1)
qed

text \<open>
  The witness: connection 1 has answered the probe, so the provisional list holds the record
  made from its reply and the authoritative list holds the record \<^verbatim>\<open>addUser\<close> made.
\<close>

theorem updateColor_during_sweep_witness:
  "\<forall>engine.
   userListStale (fst (pong (fst (sendKeepAlive (fst (onConnection (init engine) 1)))) 1 ''1,#ff0000'')) \<and>
   provisional (fst (pong (fst (sendKeepAlive (fst (onConnection (init engine) 1)))) 1 ''1,#ff0000'')) =
     [[Str ''1'', Str ''#ff0000'']] \<and>
   authoritative (fst (pong (fst (sendKeepAlive (fst (onConnection (init engine) 1)))) 1 ''1,#ff0000'')) =
     [[Num 1, Str ''black'']] \<and>
   (\<exists>s'. onMessage (fst (pong (fst (sendKeepAlive (fst (onConnection (init engine) 1)))) 1 ''1,#ff0000'')) 1
            \<lparr>messageType = ''updateColor'', data = Some ''1,#abcdef''\<rparr> = Inr (s', []) \<and>
         provisional s' = [[Str ''1'', Str ''#abcdef'']] \<and>
         authoritative s' = [[Num 1, Str ''black'']])"
proof
  fix engine
  let ?s = "fst (pong (fst (sendKeepAlive (fst (onConnection (init engine) 1)))) 1 ''1,#ff0000'')"
  let ?m = "\<lparr>messageType = ''updateColor'', data = Some ''1,#abcdef''\<rparr>"
  have f: "userListStale ?s" by code_simp
  have p: "provisional ?s = [[Str ''1'', Str ''#ff0000'']]" by code_simp
  have a: "authoritative ?s = [[Num 1, Str ''black'']]" by code_simp
  have h2: "js_split CHR '','' ''1,#abcdef'' = [''1'', ''#abcdef'']" by code_simp
  have h3: "list_ex (sameIdentity ''1'') (provisional ?s)" unfolding p by code_simp
  obtain s' u where om: "onMessage ?s 1 ?m = Inr (s', [])"
    and u: "List.find (\<lambda>r. sameIdentity ''1'' (objects ?s r)) (arrays ?s (tempUserList ?s)) = Some u"
    and o: "objects s' = (objects ?s)(u := set1 (objects ?s u) (Str ''#abcdef''))"
    and ar: "arrays s' = arrays ?s" "tempUserList s' = tempUserList ?s"
    and au: "u \<notin> set (arrays ?s (userList ?s)) \<longrightarrow> authoritative s' = authoritative ?s"
    using updateColor_during_sweep [OF f h2 h3, of 1] by blast
  have "List.find (\<lambda>r. sameIdentity ''1'' (objects ?s r)) (arrays ?s (tempUserList ?s)) = Some 1"
    by code_simp
  then have u1: "u = 1" using u by simp
  have "1 \<notin> set (arrays ?s (userList ?s))" by code_simp
  then have a': "authoritative s' = [[Num 1, Str ''black'']]" using au u1 a by simp
  have "map ((objects ?s)(1 := set1 (objects ?s 1) (Str ''#abcdef''))) (arrays ?s (tempUserList ?s)) =
      [[Str ''1'', Str ''#abcdef'']]"
    by code_simp
  then have p': "provisional s' = [[Str ''1'', Str ''#abcdef'']]"
    by (simp add: provisional_def users_def o ar u1)
  show "userListStale ?s \<and> provisional ?s = [[Str ''1'', Str ''#ff0000'']] \<and>
      authoritative ?s = [[Num 1, Str ''black'']] \<and>
      (\<exists>s'. onMessage ?s 1 ?m = Inr (s', []) \<and>
         provisional s' = [[Str ''1'', Str ''#abcdef'']] \<and>
         authoritative s' = [[Num 1, Str ''black'']])"
    using f p a om p' a' by blast
qed

text \<open>
  C9 as stated fails in two ways. A record allocated during the sweep is a member of both
  lists, and the colour change during the sweep shows in the authoritative list too (the
  first two runs). And a sweep can be in progress with the flag down: when connection 2
  closes during the grace period of a sweep, a second sweep starts, and the timeout of the
  first lowers the flag while the timeout of the second is still to come; a colour change
  then is made in the authoritative list and broadcast (the last two runs).
\<close>

theorem updateColor_during_sweep_shared_record:
  "\<forall>engine.
   observe (run (init engine) [Interval, Connection 1]) =
     Inr (([[Num 1, Str ''black'']], [[Num 1, Str ''black'']], [], True),
          [Broadcast (Msg ''ping'' None), Send 1 (Msg ''announceUUID'' (Some (Num 1)))]) \<and>
   observe (run (init engine) [Interval, Connection 1, Message 1 \<lparr>messageType = ''updateColor'', data = Some ''1,#abcdef''\<rparr>]) =
     Inr (([[Num 1, Str ''#abcdef'']], [[Num 1, Str ''#abcdef'']], [], True),
          [Broadcast (Msg ''ping'' None), Send 1 (Msg ''announceUUID'' (Some (Num 1)))]) \<and>
   observe (run (init engine) [Connection 1, Connection 2, Interval, Close 2,
       Message 1 \<lparr>messageType = ''pong'', data = Some ''1,#ff0000''\<rparr>, Timeout]) =
     Inr (([[Str ''1'', Str ''#ff0000'']], [[Str ''1'', Str ''#ff0000'']], [], False),
          [Send 1 (Msg ''announceUUID'' (Some (Num 1))),
           Send 2 (Msg ''announceUUID'' (Some (Num 2))),
           Broadcast (Msg ''ping'' None), Broadcast (Msg ''ping'' None),
           Broadcast (Msg ''announceConnectedUsers'' (Some (Str ''1,#ff0000'')))]) \<and>
   observe (run (init engine) [Connection 1, Connection 2, Interval, Close 2,
       Message 1 \<lparr>messageType = ''pong'', data = Some ''1,#ff0000''\<rparr>, Timeout,
       Message 1 \<lparr>messageType = ''updateColor'', data = Some ''1,#abcdef''\<rparr>]) =
     Inr (([[Str ''1'', Str ''#abcdef'']], [[Str ''1'', Str ''#abcdef'']], [], False),
          [Send 1 (Msg ''announceUUID'' (Some (Num 1))),
           Send 2 (Msg ''announceUUID'' (Some (Num 2))),
           Broadcast (Msg ''ping'' None), Broadcast (Msg ''ping'' None),
           Broadcast (Msg ''announceConnectedUsers'' (Some (Str ''1,#ff0000''))),
           Broadcast (Msg ''announceConnectedUsers'' (Some (Str ''1,#abcdef'')))])"
  by (intro allI) code_simp

text \<open>
  The record found is the first whose identity parses to the same double: with the
  provisional records \<^verbatim>\<open>9007199254740992\<close> and \<^verbatim>\<open>9007199254740993\<close>, in this order, a
  colour change for \<^verbatim>\<open>9007199254740993\<close> is made in the first.
\<close>

lemma updateColor_during_sweep_same_double:
  "\<forall>engine.
     observe (run (init engine) [Connection 1, Connection 2, Interval,
         Message 1 \<lparr>messageType = ''pong'', data = Some ''9007199254740992,#ff0000''\<rparr>,
         Message 2 \<lparr>messageType = ''pong'', data = Some ''9007199254740993,#0000ff''\<rparr>,
         Message 2 \<lparr>messageType = ''updateColor'', data = Some ''9007199254740993,#abcdef''\<rparr>]) =
       Inr (([[Num 1, Str ''black''], [Num 2, Str ''black'']],
             [[Str ''9007199254740992'', Str ''#abcdef''],
              [Str ''9007199254740993'', Str ''#0000ff'']], [], True),
            [Send 1 (Msg ''announceUUID'' (Some (Num 1))),
             Send 2 (Msg ''announceUUID'' (Some (Num 2))), Broadcast (Msg ''ping'' None)])"
  by (intro allI) code_simp

section \<open>Paint batches\<close>

text \<open>
  The loop of \<^verbatim>\<open>case 'paint'\<close> appends the entries before the first one that has not three
  fields. A batch with such an entry is not broadcast and is reported once, to the sender; a
  batch without one is appended whole and broadcast as it came.
\<close>

lemma paint_loop_takeWhile:
  "paint_loop cs es = (cs @ takeWhile threeFields es, list_all threeFields es)"
  by (induction es arbitrary: cs) (simp_all add: threeFields_def)

lemma paint_malformed_batch:
  assumes "\<not> list_all threeFields (js_split CHR '';'' d)"
  shows "onMessage s ws \<lparr>messageType = ''paint'', data = Some d\<rparr> =
     Inr (s\<lparr>canvasState := canvasState s @ takeWhile threeFields (js_split CHR '';'' d)\<rparr>,
          [malformedInput ws \<lparr>messageType = ''paint'', data = Some d\<rparr>])"
  using assms
  by (simp add: onMessage_def dispatch_def paint_def paint_loop_takeWhile malformedInput_def)

lemma paint_wellformed_batch:
  assumes "list_all threeFields (js_split CHR '';'' d)"
  shows "onMessage s ws \<lparr>messageType = ''paint'', data = Some d\<rparr> =
     Inr (s\<lparr>canvasState := canvasState s @ js_split CHR '';'' d\<rparr>, [broadcast ''paint'' d])"
proof -
  have "takeWhile threeFields (js_split CHR '';'' d) = js_split CHR '';'' d"
    using assms by (simp add: list_all_iff)
  then show ?thesis using assms
    by (simp add: onMessage_def dispatch_def paint_def paint_loop_takeWhile)
qed

text \<open>
  C1. At the batch \<^verbatim>\<open>3,4,#00ff00;5,6\<close>, whose second entry has two fields, the server reports
  the error to the sender and broadcasts nothing, and the log has gained the first entry.
\<close>

theorem paint_malformed_batch_keeps_prefix:
  "\<forall>engine.
     observe (run (init engine) [Connection 1, Message 1 \<lparr>messageType = ''paint'', data = Some ''3,4,#00ff00;5,6''\<rparr>]) =
        Inr (([[Num 1, Str ''black'']], [[Num 1, Str ''black'']], [''3,4,#00ff00''], False),
             [Send 1 (Msg ''announceUUID'' (Some (Num 1))),
              Send 1 (ErrorMsg ''Client sent an unrecognized message format'' \<lparr>messageType = ''paint'', data = Some ''3,4,#00ff00;5,6''\<rparr>)])"
  by (intro allI) code_simp

section \<open>Unknown identities\<close>

text \<open>
  A handshake reply whose identity matches no record of \<^verbatim>\<open>userList\<close> changes nothing and is
  reported to the sender. A colour change with two fields whose identity matches no record
  of the list it searches throws.
\<close>

lemma userAccepted_unknown_identity:
  assumes "List.find (\<lambda>r. strictEqNum (parseInt (idx (map Str (js_split CHR '','' d)) 0))
                          (idx (objects s r) 0)) (arrays s (userList s)) = None"
  shows "onMessage s ws \<lparr>messageType = ''userAccepted'', data = Some d\<rparr> =
     Inr (s, [malformedInput ws \<lparr>messageType = ''userAccepted'', data = Some d\<rparr>])"
  using assms by (simp add: onMessage_def dispatch_def userAccepted_def malformedInput_def)

lemma find_None_iff_not_ex: "List.find P xs = None \<longleftrightarrow> \<not> list_ex P xs"
  by (induction xs) auto

lemma updateColor_unknown_identity:
  assumes "js_split CHR '','' d = [i, c]"
    and "\<not> list_ex (sameIdentity i)
          (if userListStale s then provisional s else authoritative s)"
  shows "onMessage s ws \<lparr>messageType = ''updateColor'', data = Some d\<rparr> = Inl TypeError"
proof -
  let ?a = "if userListStale s then tempUserList s else userList s"
  have "\<not> list_ex (\<lambda>r. sameIdentity i (objects s r)) (arrays s ?a)"
    using assms(2) by (auto simp: provisional_def authoritative_def users_def list_ex_iff)
  then have "List.find (\<lambda>r. sameIdentity i (objects s r)) (arrays s ?a) = None"
    by (simp add: find_None_iff_not_ex)
  then show ?thesis using assms(1)
    by (simp add: onMessage_def dispatch_def updateColor_def setField1_def Let_def idx_def sameIdentity_def)
qed

text \<open>
  C4. With one user registered under identity 1, a colour change for identity 5 throws
  \<^verbatim>\<open>TypeError\<close> out of the message handler: nothing is reported to the sender, and the run
  ends there.
\<close>

theorem updateColor_unknown_identity_throws:
  "\<forall>engine.
     observe (run (init engine) [Connection 1]) =
        Inr (([[Num 1, Str ''black'']], [[Num 1, Str ''black'']], [], False),
             [Send 1 (Msg ''announceUUID'' (Some (Num 1)))]) \<and>
      observe (run (init engine) [Connection 1, Message 1 \<lparr>messageType = ''updateColor'', data = Some ''5,#ff0000''\<rparr>]) = Inl TypeError"
  by (intro allI) code_simp

section \<open>Unrecognised message types\<close>

lemma unrecognized_tag:
  assumes "messageType m \<notin> set [''userAccepted'', ''pong'', ''paint'', ''updateColor'']"
  shows "onMessage s ws m = Inr (s, [])"
  using assms by (simp add: onMessage_def dispatch_def)

text \<open>
  C5. A message of type \<^verbatim>\<open>hello\<close> leaves the state as it is and nothing is sent: no error is
  reported to the sender.
\<close>

theorem unrecognized_tag_is_ignored:
  "\<forall>engine.
     observe (run (init engine) [Connection 1]) =
        Inr (([[Num 1, Str ''black'']], [[Num 1, Str ''black'']], [], False),
             [Send 1 (Msg ''announceUUID'' (Some (Num 1)))]) \<and>
      observe (run (init engine) [Connection 1, Message 1 \<lparr>messageType = ''hello'', data = Some ''1,#ff0000''\<rparr>]) =
        Inr (([[Num 1, Str ''black'']], [[Num 1, Str ''black'']], [], False),
             [Send 1 (Msg ''announceUUID'' (Some (Num 1)))])"
  by (intro allI) code_simp

section \<open>Allocation\<close>

text \<open>
  While \<^verbatim>\<open>userList\<close> and \<^verbatim>\<open>tempUserList\<close> name two arrays, \<^verbatim>\<open>addUser\<close> makes each list one
  record longer. When they name the same array, as they do from a timeout until the next
  call of \<^verbatim>\<open>sendKeepAlive\<close>, the one array gains the new record twice.
\<close>

lemma addUser_distinct_arrays:
  assumes "userList s \<noteq> tempUserList s" and "addUser s = (n, s')"
  shows "length (authoritative s') = Suc (length (authoritative s)) \<and>
         length (provisional s') = Suc (length (provisional s))"
  using assms
  by (auto simp: addUser_def alloc_def Let_def push_def sortArray_def authoritative_def
      provisional_def users_def size_mset [symmetric] mset_sortRefs simp del: size_mset)

lemma addUser_same_array:
  assumes "userList s = tempUserList s" and "addUser s = (n, s')"
  shows "length (authoritative s') = Suc (Suc (length (authoritative s)))"
  using assms
  by (auto simp: addUser_def alloc_def Let_def push_def sortArray_def authoritative_def
      users_def size_mset [symmetric] mset_sortRefs simp del: size_mset)

text \<open>
  C6. After one sweep on a server without users, the registry is empty; the next connection
  is given identity 1, and the authoritative list then holds two records, both with
  identity 1.
\<close>

theorem addUser_after_commit_pushes_twice:
  "\<forall>engine.
     observe (run (init engine) [Interval, Timeout]) =
        Inr (([], [], [], False),
             [Broadcast (Msg ''ping'' None), Broadcast (Msg ''announceConnectedUsers'' None)]) \<and>
      observe (run (init engine) [Interval, Timeout, Connection 1]) =
        Inr (([[Num 1, Str ''black''], [Num 1, Str ''black'']],
              [[Num 1, Str ''black''], [Num 1, Str ''black'']], [], False),
             [Broadcast (Msg ''ping'' None), Broadcast (Msg ''announceConnectedUsers'' None),
              Send 1 (Msg ''announceUUID'' (Some (Num 1)))])"
  by (intro allI) code_simp

section \<open>The first handshake\<close>

text \<open>
  C7 (as amended). On a server whose log and registry are empty and whose two lists are
  two arrays, as on the server that has just started, a new connection is sent
  \<^verbatim>\<open>announceUUID\<close> with identity 1; when it answers next, \<^verbatim>\<open>userAccepted\<close> with
  \<^verbatim>\<open>1,#ff0000\<close>, the registry holds exactly the record \<^verbatim>\<open>[1, '#ff0000']\<close>, the user list
  \<^verbatim>\<open>1,#ff0000\<close> is broadcast unless the flag is up (then nothing is sent in answer), and
  no paint message is sent, as the log is empty.
\<close>

theorem handshake_on_empty_server:
  assumes "canvasState s = []" and "authoritative s = []"
    and "userList s \<noteq> tempUserList s"
  shows "\<exists>s'. run s [Connection ws,
                     Message ws \<lparr>messageType = ''userAccepted'', data = Some ''1,#ff0000''\<rparr>] =
            Inr (s', Send ws (Msg ''announceUUID'' (Some (Num 1))) #
                     (if userListStale s then []
                      else [Broadcast (Msg ''announceConnectedUsers'' (Some (Str ''1,#ff0000'')))])) \<and>
          authoritative s' = [[Num 1, Str ''#ff0000'']] \<and> canvasState s' = []"
proof -
  define r where "r = nextObject s"
  define s1 where "s1 = fst (onConnection s ws)"
  have ul: "arrays s (userList s) = []"
    using assms(2) by (simp add: authoritative_def users_def)
  have g: "generateUUID s = 1"
    unfolding generateUUID_def assms(2)
    by (subst generateUUID_loop.simps) (simp add: found_def)
  have num: "hasNumericId [Num 1, Str ''black'']"
    by (simp add: hasNumericId_def numericId_def idx_def)
  have c: "onConnection s ws = (s1, [Send ws (Msg ''announceUUID'' (Some (Num 1)))])"
    unfolding s1_def by (simp add: onConnection_def addUser_def alloc_def Let_def g)
  have o1: "objects s1 = (objects s)(r := [Num 1, Str ''black''])"
    and f1: "userList s1 = userList s" "canvasState s1 = canvasState s"
      "userListStale s1 = userListStale s"
    unfolding s1_def r_def
    by (simp_all add: onConnection_def addUser_def alloc_def Let_def g push_def sortArray_def)
  have a1: "arrays s1 (userList s1) = [r]"
    unfolding s1_def r_def using assms(3) ul num
    by (simp add: onConnection_def addUser_def alloc_def Let_def g push_def sortArray_def
        sortRefs_def stableSort_def)
  let ?d = "''1,#ff0000''"
  have sp: "map Str (js_split CHR '','' ?d) = [Str ''1'', Str ''#ff0000'']" by code_simp
  have pi: "parseInt_str ''1'' = Finite 1" by code_simp
  have jn: "joinUsers [[Num 1, Str ''#ff0000'']] = ''1,#ff0000''" by code_simp
  define s2 where "s2 = setField1 s1 r (Str ''#ff0000'')"
  have a2: "authoritative s2 = [[Num 1, Str ''#ff0000'']]"
    unfolding s2_def using a1 f1(1) by (simp add: authoritative_def users_def setField1_def o1)
  have f2: "canvasState s2 = []" "userListStale s2 = userListStale s"
    unfolding s2_def using f1 assms(1) by (simp_all add: setField1_def)
  have fd: "List.find (\<lambda>x. strictEqNum (parseInt (idx [Str ''1'', Str ''#ff0000''] 0))
      (idx (objects s1 x) 0)) (arrays s1 (userList s1)) = Some r"
    by (simp add: a1 o1 idx_def pi)
  have "userAccepted s1 ws ?d =
      (s2, (if userListStale s then []
            else [Broadcast (Msg ''announceConnectedUsers'' (Some (Str ''1,#ff0000'')))]), True)"
    unfolding userAccepted_def sp Let_def fd
    by (simp add: s2_def [symmetric] f2 a2 jn broadcast_def idx_def)
  then have "onMessage s1 ws \<lparr>messageType = ''userAccepted'', data = Some ?d\<rparr> =
      Inr (s2, (if userListStale s then []
            else [Broadcast (Msg ''announceConnectedUsers'' (Some (Str ''1,#ff0000'')))]))"
    by (simp add: onMessage_def dispatch_def)
  then show ?thesis using c a2 f2(1) by (intro exI [of _ s2]) simp
qed

text \<open>The witness: the server that has just started.\<close>

theorem handshake_on_empty_server_witness:
  "\<forall>engine.
     canvasState (init engine) = [] \<and> authoritative (init engine) = [] \<and>
     userList (init engine) \<noteq> tempUserList (init engine) \<and>
     (\<exists>s'. run (init engine) [Connection 1,
               Message 1 \<lparr>messageType = ''userAccepted'', data = Some ''1,#ff0000''\<rparr>] =
            Inr (s', [Send 1 (Msg ''announceUUID'' (Some (Num 1))),
                      Broadcast (Msg ''announceConnectedUsers'' (Some (Str ''1,#ff0000'')))]) \<and>
          authoritative s' = [[Num 1, Str ''#ff0000'']] \<and> canvasState s' = [])"
proof
  fix engine
  have h1: "canvasState (init engine) = []" by (simp add: init_def)
  have h2: "authoritative (init engine) = []" by (simp add: init_def authoritative_def users_def)
  have h3: "userList (init engine) \<noteq> tempUserList (init engine)" by (simp add: init_def)
  have f: "\<not> userListStale (init engine)" by (simp add: init_def)
  show "canvasState (init engine) = [] \<and> authoritative (init engine) = [] \<and>
     userList (init engine) \<noteq> tempUserList (init engine) \<and>
     (\<exists>s'. run (init engine) [Connection 1,
               Message 1 \<lparr>messageType = ''userAccepted'', data = Some ''1,#ff0000''\<rparr>] =
            Inr (s', [Send 1 (Msg ''announceUUID'' (Some (Num 1))),
                      Broadcast (Msg ''announceConnectedUsers'' (Some (Str ''1,#ff0000'')))]) \<and>
          authoritative s' = [[Num 1, Str ''#ff0000'']] \<and> canvasState s' = [])"
    using handshake_on_empty_server [OF h1 h2 h3, of 1] h1 h2 h3 f by (simp only: if_False) blast
qed

text \<open>
  C7 as stated fails on the server that has just started: the client receives no paint
  replay, not an empty one.
\<close>

theorem handshake_on_fresh_server_sends_no_paint:
  "\<forall>engine.
     (case run (init engine) [Connection 1, Message 1 \<lparr>messageType = ''userAccepted'', data = Some ''1,#ff0000''\<rparr>] of
         Inl e \<Rightarrow> False
       | Inr (s, out) \<Rightarrow> \<not> list_ex isPaint out)"
  by (intro allI) code_simp

section \<open>Unique identities\<close>

text \<open>
  C8. A liveness reply with the sentinel identity during a sweep puts two records with the
  allocated identity into the provisional list, the one \<^verbatim>\<open>addUser\<close> made and the one made
  from the reply; after the timeout the authoritative list holds two records with identity 2.
\<close>

theorem sentinel_reply_duplicates_identity:
  "\<forall>engine.
     observe (run (init engine) [Connection 1, Interval, Message 1 \<lparr>messageType = ''pong'', data = Some ''-1,#00ff00''\<rparr>, Timeout]) =
        Inr (([[Num 2, Str ''black''], [Num 2, Str ''#00ff00'']],
              [[Num 2, Str ''black''], [Num 2, Str ''#00ff00'']], [], False),
             [Send 1 (Msg ''announceUUID'' (Some (Num 1))), Broadcast (Msg ''ping'' None),
              Send 1 (Msg ''announceUUID'' (Some (Num 2))),
              Broadcast (Msg ''announceConnectedUsers'' (Some (Str ''2,black;2,#00ff00'')))])"
  by (intro allI) code_simp

end
